theory Spec2Isabelle
  imports Complex_Main "HOL-Library.Multiset" "HOL-Library.Sublist"
begin

chapter \<open>The model: definitions translated from the source\<close>

section \<open>JavaScript numbers\<close>

text \<open>
  A JavaScript number is an IEEE 754 binary64 value: a finite double, one of the two
  infinities, or \<open>NaN\<close>. A finite double is the real number it stands for (\<open>Num\<close>); the
  sign of zero is not kept, as none of the operations below tells \<open>-0\<close> from \<open>0\<close>.

  The result of an arithmetic operation is the exact result rounded to the nearest
  double, ties to the even significand (\<open>fl\<close>). A double has 53 significant bits and a
  binary exponent from \<open>-1022\<close> to \<open>1023\<close>: the doubles next to a real \<open>x\<close> with
  \<open>2 ^ e \<le> \<bar>x\<bar> < 2 ^ (e + 1)\<close> are the multiples of \<open>2 ^ (e - 52)\<close>, and below
  \<open>2 ^ (- 1022)\<close> they are the multiples of \<open>2 ^ (- 1074)\<close>. A rounded result of
  magnitude \<open>2 ^ 1024\<close> or more is an infinity.
\<close>

datatype number = Num real | PInf | NInf | NaN

text \<open>
  The binary exponent of \<open>a \<ge> 0\<close>, kept within \<open>-1022 .. 1023\<close>: the number of halvings
  that bring \<open>a\<close> below \<open>2\<close>, or of doublings that bring it up to \<open>1\<close>.
\<close>

fun exp_up :: "nat \<Rightarrow> real \<Rightarrow> int" where
  "exp_up 0 a = 0"
| "exp_up (Suc n) a = (if a < 2 then 0 else exp_up n (a / 2) + 1)"

fun exp_down :: "nat \<Rightarrow> real \<Rightarrow> int" where
  "exp_down 0 a = 0"
| "exp_down (Suc n) a = (if 1 \<le> a then 0 else exp_down n (a * 2) - 1)"

definition exponent :: "real \<Rightarrow> int" where
  "exponent a = (if 1 \<le> a then exp_up 1023 a else exp_down 1022 a)"

text \<open>The distance between the doubles next to \<open>x\<close>.\<close>

definition ulp :: "real \<Rightarrow> real" where
  "ulp x = 2 powi (exponent \<bar>x\<bar> - 52)"

definition round_half_even :: "real \<Rightarrow> int" where
  "round_half_even y =
     (let f = \<lfloor>y\<rfloor> in
      if y - of_int f < 1 / 2 then f
      else if 1 / 2 < y - of_int f then f + 1
      else if even f then f else f + 1)"

definition rounded :: "real \<Rightarrow> real" where
  "rounded x = of_int (round_half_even (x / ulp x)) * ulp x"

definition fl :: "real \<Rightarrow> number" where
  "fl x =
     (let r = rounded x
      in if 2 ^ 1024 \<le> r then PInf else if r \<le> - (2 ^ 1024) then NInf else Num r)"

text \<open>\<open>a - b\<close>.\<close>

fun num_sub :: "number \<Rightarrow> number \<Rightarrow> number" where
  "num_sub (Num x) (Num y) = fl (x - y)"
| "num_sub (Num x) PInf = NInf"
| "num_sub (Num x) NInf = PInf"
| "num_sub PInf (Num y) = PInf"
| "num_sub PInf NInf = PInf"
| "num_sub NInf (Num y) = NInf"
| "num_sub NInf PInf = NInf"
| "num_sub PInf PInf = NaN"
| "num_sub NInf NInf = NaN"
| "num_sub NaN b = NaN"
| "num_sub a NaN = NaN"

text \<open>
  \<open>a / b\<close>. The sign of a quotient by zero is that of the dividend, the zero being \<open>0\<close>.
\<close>

fun num_div :: "number \<Rightarrow> number \<Rightarrow> number" where
  "num_div (Num x) (Num y) =
     (if y = 0 then (if x = 0 then NaN else if 0 < x then PInf else NInf) else fl (x / y))"
| "num_div (Num x) PInf = Num 0"
| "num_div (Num x) NInf = Num 0"
| "num_div PInf (Num y) = (if 0 \<le> y then PInf else NInf)"
| "num_div NInf (Num y) = (if 0 \<le> y then NInf else PInf)"
| "num_div PInf PInf = NaN"
| "num_div PInf NInf = NaN"
| "num_div NInf PInf = NaN"
| "num_div NInf NInf = NaN"
| "num_div NaN b = NaN"
| "num_div a NaN = NaN"

text \<open>\<open>a <= b\<close> and \<open>a < b\<close>: a comparison with \<open>NaN\<close> is false.\<close>

fun num_le :: "number \<Rightarrow> number \<Rightarrow> bool" where
  "num_le (Num x) (Num y) \<longleftrightarrow> x \<le> y"
| "num_le (Num x) PInf \<longleftrightarrow> True"
| "num_le (Num x) NInf \<longleftrightarrow> False"
| "num_le PInf (Num y) \<longleftrightarrow> False"
| "num_le PInf PInf \<longleftrightarrow> True"
| "num_le PInf NInf \<longleftrightarrow> False"
| "num_le NInf (Num y) \<longleftrightarrow> True"
| "num_le NInf PInf \<longleftrightarrow> True"
| "num_le NInf NInf \<longleftrightarrow> True"
| "num_le NaN b \<longleftrightarrow> False"
| "num_le a NaN \<longleftrightarrow> False"


text \<open>\<open>Math.max(a, b)\<close>: \<open>NaN\<close> if one of the two is \<open>NaN\<close>.\<close>

fun Math_max :: "number \<Rightarrow> number \<Rightarrow> number" where
  "Math_max NaN b = NaN"
| "Math_max a NaN = NaN"
| "Math_max a b = (if num_le a b then b else a)"

text \<open>A number used as a condition: \<open>0\<close> and \<open>NaN\<close> are falsy.\<close>

definition num_truthy :: "number \<Rightarrow> bool" where
  "num_truthy a \<longleftrightarrow> a \<noteq> Num 0 \<and> a \<noteq> NaN"

text \<open>The number that the source text \<open>0.1\<close> denotes: the double nearest to one tenth.\<close>

definition tenth :: number where
  "tenth = fl (1 / 10)"

section \<open>Timer engine (lib/timer-logic: useTimer)\<close>

text \<open>
  The hook keeps three pieces of React state (\<open>timeLeft\<close>, \<open>currentLimit\<close>,
  \<open>isRunning\<close>). The caller-supplied callback \<open>onTimeUp\<close> is opaque to the hook; its
  invocations are counted in \<open>timeUpCalls\<close>.
\<close>

datatype TimerMode = TM_none | TM_global | TM_per_question | TM_acceleration

record UseTimerProps =
  mode :: TimerMode
  timeLimit :: number
  accelerationStep :: number
  minTime :: number

record TimerState =
  timeLeft :: number
  currentLimit :: number
  isRunning :: bool
  timeUpCalls :: nat

text \<open>\<open>useState(timeLimit)\<close>, \<open>useState(timeLimit)\<close>, \<open>useState(false)\<close>.\<close>

definition useTimer_init :: "UseTimerProps \<Rightarrow> TimerState" where
  "useTimer_init p =
     \<lparr>timeLeft = timeLimit p, currentLimit = timeLimit p, isRunning = False, timeUpCalls = 0\<rparr>"

definition resetTimer :: "TimerState \<Rightarrow> TimerState" where
  "resetTimer s = s\<lparr>timeLeft := currentLimit s, isRunning := True\<rparr>"

definition accelerate :: "UseTimerProps \<Rightarrow> TimerState \<Rightarrow> TimerState" where
  "accelerate p s =
     (if mode p = TM_acceleration
      then s\<lparr>currentLimit := Math_max (num_sub (currentLimit s) (accelerationStep p)) (minTime p)\<rparr>
      else s)"

definition stopTimer :: "TimerState \<Rightarrow> TimerState" where
  "stopTimer s = s\<lparr>isRunning := False\<rparr>"

definition start :: "TimerState \<Rightarrow> TimerState" where
  "start s = s\<lparr>isRunning := True\<rparr>"

text \<open>
  One firing of the interval installed by the tick effect. The effect installs the
  interval only when \<open>isRunning\<close> holds and the mode is not \<open>none\<close>, and \<open>stopTimer\<close>
  clears it, so a firing in any other state does not happen: the model leaves the state
  as it is.
\<close>

definition tick :: "UseTimerProps \<Rightarrow> TimerState \<Rightarrow> TimerState" where
  "tick p s =
     (if \<not> isRunning s \<or> mode p = TM_none then s
      else if num_le (timeLeft s) tenth
      then (stopTimer s)\<lparr>timeUpCalls := Suc (timeUpCalls s), timeLeft := Num 0\<rparr>
      else s\<lparr>timeLeft := num_sub (timeLeft s) tenth\<rparr>)"




text \<open>\<open>n\<close> consecutive firings of the interval.\<close>

fun ticks :: "nat \<Rightarrow> UseTimerProps \<Rightarrow> TimerState \<Rightarrow> TimerState" where
  "ticks 0 p s = s"
| "ticks (Suc n) p s = ticks n p (tick p s)"

section \<open>Words, configuration and logs (types.ts)\<close>

text \<open>
  \<open>Word.val\<close> is declared \<open>string[]\<close> with \<open>val[0]\<close> the source text and \<open>val[1]\<close> the
  target text; it stays a list here, and a read of a missing entry followed by a method
  call (\<open>w.val[0].trim()\<close>) is the \<open>TypeError\<close> JavaScript raises. The field \<open>id\<close> is
  named \<open>word_id\<close>. Numbers that count are integers (\<open>wordCount\<close>, \<open>totalQuestions\<close>) or
  natural numbers (\<open>batchSize\<close>, \<open>optionsCount\<close>, scores, seconds); the fields \<open>mode\<close>,
  \<open>timeLimit\<close> of \<open>GameConfig\<close>, \<open>id\<close> of \<open>SessionLog\<close> and \<open>timeTaken\<close> of \<open>QuestionLog\<close>
  are named \<open>game_mode\<close>, \<open>config_timeLimit\<close>, \<open>session_id\<close> and \<open>question_timeTaken\<close>.
\<close>

record Word =
  word_id :: string
  val :: "string list"

datatype GameMode = One_of_n | Matching

datatype Direction = Ru_en | En_ru

record GameConfig =
  themeIds :: "string list"
  wordCount :: int
  game_mode :: GameMode
  timerMode :: TimerMode
  config_timeLimit :: number
  direction :: Direction
  batchSize :: nat
  optionsCount :: nat
  totalQuestions :: "int option"
  isReplay :: "bool option"
  replaySessionId :: "string option"
  accelerationStart :: "number option"
  accelerationEnd :: "number option"

record QuestionLog =
  wordId :: string
  options :: "string list"
  correctId :: string
  selectedId :: "string option"
  isCorrect :: bool
  question_timeTaken :: number

record SessionLog =
  session_id :: string
  timestamp :: nat
  config :: GameConfig
  questions :: "QuestionLog list"
  score :: nat
  mistakes :: "nat option"
  totalWords :: nat
  timeTaken :: "nat option"

datatype js_error = TypeError

section \<open>Word pool resolver (App.handleStartGame)\<close>

subsection \<open>Deduplication by content\<close>

text \<open>
  The content key of the filter callback,
  \<^verbatim>\<open>`${w.val[0].trim().toLowerCase()}|||${w.val[1].trim().toLowerCase()}`\<close>.
  \<open>String.prototype.trim\<close> and \<open>toLowerCase\<close> belong to the JavaScript runtime and work
  on Unicode text; they are parameters of the model, so that every result holds for
  whatever these two functions compute.
\<close>

definition contentKey :: "(string \<Rightarrow> string) \<Rightarrow> (string \<Rightarrow> string) \<Rightarrow> Word \<Rightarrow> js_error + string" where
  "contentKey trim toLowerCase w =
     (case val w of
        a # b # _ \<Rightarrow> Inr (toLowerCase (trim a) @ ''|||'' @ toLowerCase (trim b))
      | _ \<Rightarrow> Inl TypeError)"

text \<open>
  \<open>allThemeWordsRaw.filter(w => ...)\<close> with the set \<open>seenContent\<close> threaded through the
  calls of the callback, in array order. A \<open>TypeError\<close> in the callback ends the filter.
\<close>

fun dedup_filter ::
  "(string \<Rightarrow> string) \<Rightarrow> (string \<Rightarrow> string) \<Rightarrow> string set \<Rightarrow> Word list \<Rightarrow> js_error + Word list" where
  "dedup_filter trim toLowerCase seenContent [] = Inr []"
| "dedup_filter trim toLowerCase seenContent (w # ws) =
     (case contentKey trim toLowerCase w of
        Inl e \<Rightarrow> Inl e
      | Inr key \<Rightarrow>
          if key \<in> seenContent then dedup_filter trim toLowerCase seenContent ws
          else (case dedup_filter trim toLowerCase (insert key seenContent) ws of
                  Inl e \<Rightarrow> Inl e
                | Inr kept \<Rightarrow> Inr (w # kept)))"

definition dedupByContent ::
  "(string \<Rightarrow> string) \<Rightarrow> (string \<Rightarrow> string) \<Rightarrow> Word list \<Rightarrow> js_error + Word list" where
  "dedupByContent trim toLowerCase allThemeWordsRaw =
     dedup_filter trim toLowerCase {} allThemeWordsRaw"

subsection \<open>Subset, question sequence, direction\<close>

text \<open>
  \<open>[...xs].sort(() => Math.random() - 0.5)\<close> returns the elements of \<open>xs\<close> in an order
  nobody controls. The model takes the orders from an oracle \<open>shuffle\<close>: its \<open>i\<close>-th use
  is \<open>shuffle i xs\<close>. That a sort only rearranges is the predicate \<open>rearranges\<close>.
\<close>

definition rearranges :: "(nat \<Rightarrow> Word list \<Rightarrow> Word list) \<Rightarrow> bool" where
  "rearranges shuffle \<longleftrightarrow> (\<forall>i xs. mset (shuffle i xs) = mset xs)"

text \<open>\<open>xs.slice(0, n)\<close> for an integer \<open>n\<close>: a negative \<open>n\<close> counts from the end.\<close>

definition slice0 :: "'a list \<Rightarrow> int \<Rightarrow> 'a list" where
  "slice0 xs n = (if 0 \<le> n then take (nat n) xs else take (length xs - nat (- n)) xs)"

text \<open>\<open>config.totalQuestions || 20\<close>: a missing field and \<open>0\<close> are falsy.\<close>

definition questionCount :: "GameConfig \<Rightarrow> int" where
  "questionCount c =
     (case totalQuestions c of None \<Rightarrow> 20 | Some n \<Rightarrow> if n = 0 then 20 else n)"

text \<open>
  The loop \<^verbatim>\<open>while (sequence.length < questionCount) { chunk = shuffle(subset); sequence.push(...chunk) }\<close>.
  It does not return when the chunks stay empty, so it is a partial function: \<open>None\<close> is
  a loop that runs forever. \<open>i\<close> counts the uses of the shuffle.
\<close>

partial_function (option) fill_sequence ::
  "(nat \<Rightarrow> Word list \<Rightarrow> Word list) \<Rightarrow> nat \<Rightarrow> Word list \<Rightarrow> int \<Rightarrow> Word list \<Rightarrow> Word list option" where
  "fill_sequence shuffle i subset' n sequence =
     (if int (length sequence) < n
      then fill_sequence shuffle (Suc i) subset' n (sequence @ shuffle i subset')
      else Some sequence)"

text \<open>
  Step 3 of \<open>handleStartGame\<close> (``Apply Test Length''): the guard on an empty subset,
  the loop, and the trim to the exact length.
\<close>

definition build_sequence ::
  "(nat \<Rightarrow> Word list \<Rightarrow> Word list) \<Rightarrow> nat \<Rightarrow> Word list \<Rightarrow> int \<Rightarrow> Word list option" where
  "build_sequence shuffle i subset' n =
     (if length subset' = 0 then Some []
      else (case fill_sequence shuffle i subset' n [] of
              None \<Rightarrow> None
            | Some sequence \<Rightarrow> Some (slice0 sequence n)))"

text \<open>
  Step 4: the two maps applied when the direction is \<open>en-ru\<close>. They are applied to words
  that passed the deduplication, which raises on a word without \<open>val[0]\<close> or \<open>val[1]\<close>;
  so both entries are there.
\<close>

definition swap_sequence_word :: "Word \<Rightarrow> Word" where
  "swap_sequence_word w = w\<lparr>word_id := word_id w @ ''_dir'', val := [val w ! 1, val w ! 0]\<rparr>"

definition swap_dictionary_word :: "Word \<Rightarrow> Word" where
  "swap_dictionary_word w = w\<lparr>val := [val w ! 1, val w ! 0]\<rparr>"

text \<open>
  What \<open>handleStartGame\<close> hands to the game: \<open>setActiveWords\<close>, \<open>setDictionary\<close>,
  \<open>setTotalThemeWords\<close>, \<open>setActiveConfig\<close>. The two alerts that end the function without a
  game are the errors.
\<close>

record GameStart =
  activeWords :: "Word list"
  dictionary :: "Word list"
  totalThemeWords :: nat
  activeConfig :: GameConfig

datatype StartError = No_words | Load_error

text \<open>
  \<open>allThemeWordsRaw\<close> is what \<open>DataManager.loadMultipleThemes\<close> returned for the selected
  themes. The outer \<open>option\<close> is the loop: \<open>None\<close> if it never returns. The first use of
  the shuffle (number 0) orders the pool, the loop uses the numbers from 1 on.
\<close>

definition handleStartGame ::
  "(string \<Rightarrow> string) \<Rightarrow> (string \<Rightarrow> string) \<Rightarrow> (nat \<Rightarrow> Word list \<Rightarrow> Word list) \<Rightarrow>
   GameConfig \<Rightarrow> Word list \<Rightarrow> (StartError + GameStart) option" where
  "handleStartGame trim toLowerCase shuffle c allThemeWordsRaw =
     (if length allThemeWordsRaw = 0 then Some (Inl No_words)
      else (case dedupByContent trim toLowerCase allThemeWordsRaw of
              Inl e \<Rightarrow> Some (Inl Load_error)
            | Inr allThemeWords \<Rightarrow>
                (let shuffled = shuffle 0 allThemeWords;
                     subset' = (if 0 < wordCount c then slice0 shuffled (wordCount c) else shuffled)
                 in case build_sequence shuffle 1 subset' (questionCount c) of
                      None \<Rightarrow> None
                    | Some sequence \<Rightarrow>
                        Some (Inr
                          (if direction c = En_ru
                           then \<lparr>activeWords = map swap_sequence_word sequence,
                                 dictionary = map swap_dictionary_word allThemeWords,
                                 totalThemeWords = length allThemeWordsRaw,
                                 activeConfig = c\<rparr>
                           else \<lparr>activeWords = sequence,
                                 dictionary = allThemeWords,
                                 totalThemeWords = length allThemeWordsRaw,
                                 activeConfig = c\<rparr>)))))"

section \<open>Replay reconstruction (App.handleReplay)\<close>

definition placeholder_word :: "QuestionLog \<Rightarrow> Word" where
  "placeholder_word q = \<lparr>word_id = wordId q, val = [''?'', ''Error: Word Removed'']\<rparr>"

definition replay_word :: "Word list \<Rightarrow> QuestionLog \<Rightarrow> Word" where
  "replay_word allThemeWords q =
     (case find (\<lambda>w. word_id w = wordId q) allThemeWords of
        Some w \<Rightarrow> w
      | None \<Rightarrow> placeholder_word q)"

record ReplayStart =
  replay_activeWords :: "Word list"
  replay_dictionary :: "Word list"
  replay_totalThemeWords :: nat
  replay_activeConfig :: GameConfig
  replayData :: "QuestionLog list"

datatype ReplayError = Old_format

text \<open>
  \<open>allThemeWords\<close> is what \<open>DataManager.loadMultipleThemes\<close> returned for the themes of the
  session. A session without logged questions is refused with an alert.
\<close>

definition handleReplay :: "SessionLog \<Rightarrow> Word list \<Rightarrow> ReplayError + ReplayStart" where
  "handleReplay session allThemeWords =
     (if length (questions session) = 0 then Inl Old_format
      else Inr \<lparr>replay_activeWords = map (replay_word allThemeWords) (questions session),
                replay_dictionary = allThemeWords,
                replay_totalThemeWords = length allThemeWords,
                replay_activeConfig =
                  (config session)\<lparr>isReplay := Some True,
                                    replaySessionId := Some (session_id session)\<rparr>,
                replayData = questions session\<rparr>)"

section \<open>Choice round engine (components/ChoiceGame.tsx)\<close>

text \<open>
  A JavaScript \<open>Set\<close> keeps its elements in insertion order without repetition; it is a
  list here: \<open>set_add\<close> is \<open>new Set(s).add(x)\<close>, membership in the list is \<open>has\<close>, and
  \<open>length\<close> is \<open>size\<close>.
\<close>

definition set_add :: "'a \<Rightarrow> 'a list \<Rightarrow> 'a list" where
  "set_add x s = (if x \<in> set s then s else s @ [x])"

text \<open>
  The React state of the component. \<open>advanceTimeouts\<close> counts the pending timeouts that
  were set with \<open>setTimeout(() => setBatchIndex(prev => prev + 1), 400)\<close>; \<open>timerC\<close> is
  the state of the \<open>useTimer\<close> hook. The state names \<open>score\<close>, \<open>mistakes\<close>, \<open>options\<close> and
  \<open>isFinished\<close> carry the suffix \<open>C\<close>.
\<close>

record ChoiceState =
  batchIndex :: nat
  scoreC :: nat
  mistakesC :: nat
  currentBatch :: "Word list"
  optionsC :: "Word list"
  selectedQuestionId :: "string option"
  resolvedIds :: "string list"
  wrongIds :: "string list"
  correctMatchIds :: "string list"
  taintedQuestionIds :: "string list"
  isFinishedC :: bool
  advanceTimeouts :: nat
  timerC :: TimerState

text \<open>The state at mount: the \<open>useState\<close> initial values.\<close>

definition choice_mount :: "UseTimerProps \<Rightarrow> ChoiceState" where
  "choice_mount p =
     \<lparr>batchIndex = 0, scoreC = 0, mistakesC = 0, currentBatch = [], optionsC = [],
      selectedQuestionId = None, resolvedIds = [], wrongIds = [], correctMatchIds = [],
      taintedQuestionIds = [], isFinishedC = False, advanceTimeouts = 0,
      timerC = useTimer_init p\<rparr>"

text \<open>
  The batch initialisation effect, lines 80--104: the slice of the sequence for the
  batch \<open>batchIndex\<close> and the options generated for it. \<open>config.batchSize || 1\<close> and
  \<open>config.optionsCount || 5\<close> replace a zero.
\<close>

definition batch_slice :: "GameConfig \<Rightarrow> Word list \<Rightarrow> nat \<Rightarrow> Word list" where
  "batch_slice c words bi =
     (let size = (if batchSize c = 0 then 1 else batchSize c);
          start = bi * size;
          end = min (start + size) (length words)
      in take (end - start) (drop start words))"

definition distractor_pool :: "Word list \<Rightarrow> Word list \<Rightarrow> Word list" where
  "distractor_pool fullDictionary batchOfWords =
     filter (\<lambda>w. find (\<lambda>b. word_id b = word_id w) batchOfWords = None) fullDictionary"

definition generate_options ::
  "(nat \<Rightarrow> Word list \<Rightarrow> Word list) \<Rightarrow> GameConfig \<Rightarrow> Word list \<Rightarrow> Word list \<Rightarrow> Word list" where
  "generate_options shuffle c fullDictionary batchOfWords =
     (let correctOptions = batchOfWords;
          needed = int (if optionsCount c = 0 then 5 else optionsCount c)
                     - int (length correctOptions);
          pool = distractor_pool fullDictionary batchOfWords;
          distractors = slice0 (shuffle 0 pool) (max 0 needed)
      in shuffle 1 (correctOptions @ distractors))"

text \<open>
  The whole effect for a game that is not finished. Where the sequence is used up the
  effect ends the game with \<open>finishGame\<close> and sets no batch: that is \<open>None\<close>. Otherwise it
  sets the batch and its options, empties the four sets, selects the question when the
  batch has exactly one, and resets the timer.
\<close>

definition initBatch ::
  "(nat \<Rightarrow> Word list \<Rightarrow> Word list) \<Rightarrow> GameConfig \<Rightarrow> Word list \<Rightarrow> Word list \<Rightarrow>
   ChoiceState \<Rightarrow> ChoiceState option" where
  "initBatch shuffle c words fullDictionary s =
     (if isFinishedC s then Some s
      else if length words \<le> batchIndex s * (if batchSize c = 0 then 1 else batchSize c)
      then None
      else (let batchOfWords = batch_slice c words (batchIndex s)
            in Some (s\<lparr>currentBatch := batchOfWords,
                       optionsC := generate_options shuffle c fullDictionary batchOfWords,
                       resolvedIds := [],
                       correctMatchIds := [],
                       wrongIds := [],
                       taintedQuestionIds := [],
                       selectedQuestionId :=
                         (if length batchOfWords = 1 then Some (word_id (batchOfWords ! 0))
                          else None),
                       timerC := resetTimer (timerC s)\<rparr>)))"

definition handleQuestionClick :: "string \<Rightarrow> ChoiceState \<Rightarrow> ChoiceState" where
  "handleQuestionClick i s =
     (if i \<in> set (resolvedIds s) then s
      else s\<lparr>selectedQuestionId := Some i, wrongIds := []\<rparr>)"

text \<open>
  \<open>handleOptionClick\<close>. \<open>!selectedQuestionId\<close> holds for \<open>null\<close> and for the empty string.
\<close>

definition handleOptionClick :: "string \<Rightarrow> ChoiceState \<Rightarrow> ChoiceState" where
  "handleOptionClick optionId s =
     (case selectedQuestionId s of
        None \<Rightarrow> s
      | Some selected \<Rightarrow>
          if selected = [] then s
          else if optionId \<in> set (correctMatchIds s) then s
          else (case find (\<lambda>q. word_id q = selected) (currentBatch s) of
                  None \<Rightarrow> s
                | Some question \<Rightarrow>
                    if word_id question = optionId
                    then (let newResolved = set_add selected (resolvedIds s);
                              s1 = s\<lparr>resolvedIds := newResolved,
                                     correctMatchIds := set_add optionId (correctMatchIds s)\<rparr>;
                              s2 = (if selected \<notin> set (taintedQuestionIds s)
                                    then s1\<lparr>scoreC := scoreC s1 + 1\<rparr> else s1)
                          in if length newResolved = length (currentBatch s)
                             then s2\<lparr>advanceTimeouts := Suc (advanceTimeouts s2),
                                     selectedQuestionId := None\<rparr>
                             else (let remaining =
                                         filter (\<lambda>q. word_id q \<notin> set newResolved) (currentBatch s)
                                   in if length remaining = 1
                                      then s2\<lparr>selectedQuestionId := Some (word_id (remaining ! 0))\<rparr>
                                      else s2\<lparr>selectedQuestionId := None\<rparr>))
                    else s\<lparr>wrongIds := set_add optionId (wrongIds s),
                           mistakesC := mistakesC s + 1,
                           taintedQuestionIds := set_add selected (taintedQuestionIds s)\<rparr>))"

text \<open>
  The clicks a player makes within one batch, and the state after a list of them.
\<close>

datatype ChoiceClick = QuestionClick string | OptionClick string

fun choice_click :: "ChoiceClick \<Rightarrow> ChoiceState \<Rightarrow> ChoiceState" where
  "choice_click (QuestionClick i) s = handleQuestionClick i s"
| "choice_click (OptionClick i) s = handleOptionClick i s"

fun choice_clicks :: "ChoiceClick list \<Rightarrow> ChoiceState \<Rightarrow> ChoiceState" where
  "choice_clicks [] s = s"
| "choice_clicks (e # es) s = choice_clicks es (choice_click e s)"

text \<open>
  A click on an option is an answer to question \<open>q\<close> when \<open>q\<close> is the selected question,
  \<open>q\<close> is a question of the batch, and the option is not one matched before. The answer
  is wrong when the option's id is not \<open>q\<close>. \<open>answered_wrong s es q\<close>: somewhere in the
  clicks \<open>es\<close>, played from state \<open>s\<close>, question \<open>q\<close> was answered wrong.
\<close>

definition wrong_answer :: "ChoiceState \<Rightarrow> ChoiceClick \<Rightarrow> string \<Rightarrow> bool" where
  "wrong_answer s e q =
     (case e of
        QuestionClick _ \<Rightarrow> False
      | OptionClick optionId \<Rightarrow>
          selectedQuestionId s = Some q \<and> q \<noteq> [] \<and> q \<in> word_id ` set (currentBatch s)
          \<and> optionId \<notin> set (correctMatchIds s) \<and> optionId \<noteq> q)"

fun answered_wrong :: "ChoiceState \<Rightarrow> ChoiceClick list \<Rightarrow> string \<Rightarrow> bool" where
  "answered_wrong s [] q = False"
| "answered_wrong s (e # es) q =
     (wrong_answer s e q \<or> answered_wrong (choice_click e s) es q)"

section \<open>History manager (lib/history-manager.ts)\<close>

text \<open>
  The manager keeps one item of \<open>localStorage\<close>, under the key
  \<open>vocab_trainer_history\<close>. An item is a string; what the manager does with it depends
  only on what \<open>JSON.parse\<close> makes of it, so a stored string is modelled by that:
  \<open>Json v\<close> is the JSON text of the value \<open>v\<close> (the text \<open>JSON.stringify\<close> writes for
  \<open>v\<close>), \<open>Not_json t\<close> is a string \<open>t\<close> that is not JSON text, the empty string among
  them. Of the values only the arrays of session logs are told apart further.
\<close>

datatype js_value =
    JArray "SessionLog list"
  | JNull
  | JObject
  | JNumber int
  | JString string
  | JBool bool

datatype stored_text = Json js_value | Not_json string

datatype json_error = SyntaxError

definition JSON_parse :: "stored_text \<Rightarrow> json_error + js_value" where
  "JSON_parse raw = (case raw of Json v \<Rightarrow> Inr v | Not_json t \<Rightarrow> Inl SyntaxError)"

definition JSON_stringify :: "js_value \<Rightarrow> stored_text" where
  "JSON_stringify v = Json v"

text \<open>\<open>!raw\<close> for a string: it is the empty string.\<close>

definition is_empty_string :: "stored_text \<Rightarrow> bool" where
  "is_empty_string raw = (case raw of Json v \<Rightarrow> False | Not_json t \<Rightarrow> t = [])"

record Storage =
  vocab_trainer_history :: "stored_text option"

text \<open>
  \<open>getAllSessions\<close>. The declared result type is \<open>SessionLog[]\<close>, but \<open>JSON.parse\<close>
  returns whatever value the text denotes, so the result is a \<open>js_value\<close>.
\<close>

definition getAllSessions :: "Storage \<Rightarrow> js_value" where
  "getAllSessions st =
     (case vocab_trainer_history st of
        None \<Rightarrow> JArray []
      | Some raw \<Rightarrow>
          if is_empty_string raw then JArray []
          else (case JSON_parse raw of
                  Inl e \<Rightarrow> JArray []
                | Inr v \<Rightarrow> v))"

text \<open>
  \<open>saveSession\<close> and \<open>deleteSession\<close>. \<open>history.push\<close> and \<open>history.filter\<close> exist on
  arrays only: on any other value the call raises a \<open>TypeError\<close>, before anything is
  written. (A write that the browser refuses for lack of space is not modelled.)
\<close>

definition saveSession :: "SessionLog \<Rightarrow> Storage \<Rightarrow> js_error + Storage" where
  "saveSession session st =
     (case getAllSessions st of
        JArray history \<Rightarrow>
          Inr (st\<lparr>vocab_trainer_history := Some (JSON_stringify (JArray (history @ [session])))\<rparr>)
      | _ \<Rightarrow> Inl TypeError)"

definition deleteSession :: "string \<Rightarrow> Storage \<Rightarrow> js_error + Storage" where
  "deleteSession i st =
     (case getAllSessions st of
        JArray history \<Rightarrow>
          Inr (st\<lparr>vocab_trainer_history :=
                   Some (JSON_stringify (JArray (filter (\<lambda>s. session_id s \<noteq> i) history)))\<rparr>)
      | _ \<Rightarrow> Inl TypeError)"

definition getSession :: "string \<Rightarrow> Storage \<Rightarrow> js_error + SessionLog option" where
  "getSession i st =
     (case getAllSessions st of
        JArray history \<Rightarrow> Inr (find (\<lambda>s. session_id s = i) history)
      | _ \<Rightarrow> Inl TypeError)"

section \<open>Matching round engine (components/MatchingGame)\<close>

subsection \<open>Items and their ids\<close>

datatype Side = Side_left | Side_right

datatype ItemState = St_default | St_selected | St_matched | St_error | St_success_hint

text \<open>The fields \<open>id\<close>, \<open>text\<close>, \<open>side\<close> and \<open>state\<close> carry the prefix \<open>item\<close>.\<close>

record MatchItem =
  item_id :: string
  item_text :: "string option"
  item_side :: Side
  item_state :: ItemState
  matchKey :: string

text \<open>A number inside a template literal: its decimal digits.\<close>

definition digit_char :: "nat \<Rightarrow> char" where
  "digit_char d = ''0123456789'' ! d"

fun string_of_nat :: "nat \<Rightarrow> string" where
  "string_of_nat n =
     (if n < 10 then [digit_char n] else string_of_nat (n div 10) @ [digit_char (n mod 10)])"

declare string_of_nat.simps [simp del]

text \<open>
  \<open>w.val[i]\<close> may be missing; inside a template literal a missing value reads
  \<open>undefined\<close>.
\<close>

definition val_at :: "Word \<Rightarrow> nat \<Rightarrow> string option" where
  "val_at w i = (if i < length (val w) then Some (val w ! i) else None)"

definition template :: "string option \<Rightarrow> string" where
  "template v = (case v of None \<Rightarrow> ''undefined'' | Some t \<Rightarrow> t)"

definition getMatchKey :: "Word \<Rightarrow> string" where
  "getMatchKey w = template (val_at w 0) @ ''|||'' @ template (val_at w 1)"

text \<open>
  \<open>shuffleArray\<close> (Fisher--Yates). \<open>Math.floor(Math.random() * (i + 1))\<close> is some number
  from \<open>0\<close> to \<open>i\<close>; the numbers come from an oracle \<open>pick\<close>, reduced modulo \<open>i + 1\<close>.
  \<open>fisher_yates pick i xs\<close> runs the loop from index \<open>i\<close> down to \<open>1\<close>.
\<close>

fun fisher_yates :: "(nat \<Rightarrow> nat) \<Rightarrow> nat \<Rightarrow> 'a list \<Rightarrow> 'a list" where
  "fisher_yates pick 0 xs = xs"
| "fisher_yates pick (Suc i) xs =
     (let j = pick (Suc i) mod (Suc i + 1)
      in fisher_yates pick i (xs[Suc i := xs ! j, j := xs ! Suc i]))"

definition shuffleArray :: "(nat \<Rightarrow> nat) \<Rightarrow> 'a list \<Rightarrow> 'a list" where
  "shuffleArray pick xs = fisher_yates pick (length xs - 1) xs"

subsection \<open>Properties and state of the component\<close>

record MatchingProps =
  m_config :: GameConfig
  m_words :: "Word list"
  m_dictionary :: "Word list option"
  m_totalThemeWords :: "nat option"

text \<open>
  The \<open>useMemo\<close> that cuts the words into batches: the loop
  \<^verbatim>\<open>for (i = 0; i < words.length; i += size) result.push(words.slice(i, i + size))\<close> with
  \<open>size = Math.max(1, config.batchSize || 1)\<close>, written over the indices \<open>i = k * size\<close>.
\<close>

definition batch_size :: "MatchingProps \<Rightarrow> nat" where
  "batch_size P = max 1 (if batchSize (m_config P) = 0 then 1 else batchSize (m_config P))"

definition batches :: "MatchingProps \<Rightarrow> Word list list" where
  "batches P =
     map (\<lambda>k. take (batch_size P) (drop (k * batch_size P) (m_words P)))
       [0 ..< (length (m_words P) + batch_size P - 1) div batch_size P]"

text \<open>\<open>totalThemeWords || words.length\<close>.\<close>

definition total_words :: "MatchingProps \<Rightarrow> nat" where
  "total_words P =
     (case m_totalThemeWords P of
        None \<Rightarrow> length (m_words P)
      | Some n \<Rightarrow> if n = 0 then length (m_words P) else n)"

text \<open>The timer parameters computed in the body of the component.\<close>

definition matching_timer_props :: "MatchingProps \<Rightarrow> UseTimerProps" where
  "matching_timer_props P =
     (let c = m_config P in
      case (timerMode c, accelerationStart c, accelerationEnd c) of
        (TM_acceleration, Some a, Some e) \<Rightarrow>
          if num_truthy a \<and> num_truthy e
          then \<lparr>mode = timerMode c, timeLimit = a,
                accelerationStep =
                  (if 0 < int (length (m_words P)) - 1
                   then num_div (num_sub a e) (Num (of_int (int (length (m_words P)) - 1)))
                   else Num 0),
                minTime = e\<rparr>
          else \<lparr>mode = timerMode c, timeLimit = config_timeLimit c, accelerationStep = Num 0,
                minTime = Num 1\<rparr>
      | _ \<Rightarrow> \<lparr>mode = timerMode c, timeLimit = config_timeLimit c, accelerationStep = Num 0,
               minTime = Num 1\<rparr>)"

text \<open>
  What a callback created in one render keeps of the state of that render: \<open>finishGame\<close>
  is a \<open>useCallback\<close> over \<open>isFinished\<close>, \<open>score\<close>, \<open>incorrectCount\<close> and \<open>elapsedTime\<close>,
  so a call made later (from a timeout) still sees the values of the render that
  created it. The refs (\<open>hasSaved\<close>, \<open>isTransitioningRef\<close>, \<open>sessionLogRef\<close>) are read live.
\<close>

record FinishClosure =
  cl_isFinished :: bool
  cl_score :: nat
  cl_incorrectCount :: nat
  cl_elapsedTime :: nat

text \<open>
  The state of the component: the \<open>useState\<close> values, the three refs, the timer hook,
  and the parts of the environment the component acts on:
  \<^item> \<open>transitionTimeouts\<close>: the pending callbacks of \<open>setTimeout(..., 300)\<close> set by the round
    completion watcher, each with the \<open>roundIndex\<close> and the \<open>finishGame\<close> it closed over;
  \<^item> \<open>initDeps\<close>: the \<open>roundIndex\<close> for which the round initialisation effect ran last
    (React runs the effect again when this dependency changes; \<open>batches\<close>, \<open>dictionary\<close>
    and \<open>config.optionsCount\<close> do not change during a game);
  \<^item> \<open>pendingInit\<close>: the items of the state updates requested by the initialisation
    effect and not rendered yet;
  \<^item> \<open>completions\<close>: the rounds for which the watcher announced \<open>Batch Complete!\<close>
    (\<open>addLog\<close>), kept in full;
  \<^item> \<open>localStorage\<close>, and \<open>uncaught\<close>, the errors that left a callback uncaught.
  The state names \<open>isFinished\<close>, \<open>score\<close> and \<open>elapsedTime\<close> carry the suffix \<open>M\<close>.
\<close>

record MatchState =
  roundIndex :: nat
  items :: "MatchItem list"
  selectedLeft :: "string option"
  selectedRight :: "string option"
  matchesInRound :: "string list"
  isFinishedM :: bool
  scoreM :: nat
  incorrectCount :: nat
  elapsedTimeM :: nat
  hasSaved :: bool
  isTransitioningRef :: bool
  sessionLogRef :: SessionLog
  timerM :: TimerState
  timerControl :: bool
  transitionTimeouts :: "(nat \<times> FinishClosure) list"
  initDeps :: "nat option"
  pendingInit :: "MatchItem list option"
  completions :: "nat list"
  localStorage :: Storage
  uncaught :: "js_error list"

definition match_mount :: "MatchingProps \<Rightarrow> string \<Rightarrow> nat \<Rightarrow> Storage \<Rightarrow> MatchState" where
  "match_mount P uuid now st =
     \<lparr>roundIndex = 0, items = [], selectedLeft = None, selectedRight = None,
      matchesInRound = [], isFinishedM = False, scoreM = 0, incorrectCount = 0,
      elapsedTimeM = 0, hasSaved = False, isTransitioningRef = False,
      sessionLogRef =
        \<lparr>session_id = uuid, timestamp = now, config = m_config P, questions = [], score = 0,
         mistakes = None, totalWords = total_words P, timeTaken = None\<rparr>,
      timerM = useTimer_init (matching_timer_props P), timerControl = False,
      transitionTimeouts = [], initDeps = None, pendingInit = None, completions = [],
      localStorage = st, uncaught = []\<rparr>"

definition currentBatchM :: "MatchingProps \<Rightarrow> MatchState \<Rightarrow> Word list option" where
  "currentBatchM P s =
     (if roundIndex s < length (batches P) then Some (batches P ! roundIndex s) else None)"

definition current_closure :: "MatchState \<Rightarrow> FinishClosure" where
  "current_closure s =
     \<lparr>cl_isFinished = isFinishedM s, cl_score = scoreM s,
      cl_incorrectCount = incorrectCount s, cl_elapsedTime = elapsedTimeM s\<rparr>"

text \<open>A string used as a condition: \<open>null\<close> and the empty string are falsy.\<close>

definition truthy :: "string option \<Rightarrow> bool" where
  "truthy v = (case v of None \<Rightarrow> False | Some t \<Rightarrow> t \<noteq> [])"

subsection \<open>Finishing and saving\<close>

definition mock_question :: "Word \<Rightarrow> QuestionLog" where
  "mock_question w =
     \<lparr>wordId = word_id w, options = [], correctId = word_id w, selectedId = Some (word_id w),
      isCorrect = True, question_timeTaken = Num 0\<rparr>"

text \<open>
  \<open>finishGame(finalScore?)\<close>, called through the closure \<open>cl\<close> at the time \<open>now\<close>. The
  guard reads \<open>isFinished\<close> from the closure and \<open>hasSaved\<close> from the ref. A \<open>TypeError\<close>
  of \<open>saveSession\<close> leaves the callback after the flags are set.
\<close>

definition finishGame ::
  "MatchingProps \<Rightarrow> nat \<Rightarrow> FinishClosure \<Rightarrow> nat option \<Rightarrow> MatchState \<Rightarrow> MatchState" where
  "finishGame P now cl finalScore s =
     (if cl_isFinished cl \<or> hasSaved s then s
      else (let actualScore = (case finalScore of Some f \<Rightarrow> f | None \<Rightarrow> cl_score cl);
                log = (sessionLogRef s)
                        \<lparr>questions := map mock_question (m_words P),
                         score := actualScore,
                         mistakes := Some (cl_incorrectCount cl),
                         timeTaken := Some (cl_elapsedTime cl),
                         totalWords := total_words P,
                         timestamp := now\<rparr>;
                s1 = s\<lparr>isFinishedM := True,
                       timerM := (if timerControl s then stopTimer (timerM s) else timerM s),
                       hasSaved := True,
                       sessionLogRef := log\<rparr>
            in case saveSession log (localStorage s1) of
                 Inr st \<Rightarrow> s1\<lparr>localStorage := st\<rparr>
               | Inl e \<Rightarrow> s1\<lparr>uncaught := uncaught s1 @ [e]\<rparr>))"

definition handleTimeUpM :: "MatchingProps \<Rightarrow> nat \<Rightarrow> MatchState \<Rightarrow> MatchState" where
  "handleTimeUpM P now s =
     (if \<not> isFinishedM s then finishGame P now (current_closure s) None s else s)"

text \<open>The effect ``Check for Game End''.\<close>

definition game_end_effect :: "MatchingProps \<Rightarrow> nat \<Rightarrow> MatchState \<Rightarrow> MatchState" where
  "game_end_effect P now s =
     (if currentBatchM P s = None \<and> \<not> isFinishedM s \<and> length (batches P) \<le> roundIndex s
      then finishGame P now (current_closure s) (Some (scoreM s)) s
      else s)"

subsection \<open>Round initialisation\<close>

text \<open>
  The items of a round, lines 209--253. \<open>pick\<close> supplies the random numbers of the three
  calls of \<open>shuffleArray\<close> (distractors, left side, right side).
\<close>

definition left_item :: "nat \<Rightarrow> Word \<times> nat \<Rightarrow> MatchItem" where
  "left_item r wi =
     \<lparr>item_id = ''L_'' @ word_id (fst wi) @ ''_'' @ string_of_nat (snd wi) @ ''_'' @ string_of_nat r,
      item_text = val_at (fst wi) 0, item_side = Side_left, item_state = St_default,
      matchKey = getMatchKey (fst wi)\<rparr>"

definition right_item :: "nat \<Rightarrow> Word \<times> nat \<Rightarrow> MatchItem" where
  "right_item r wi =
     \<lparr>item_id = ''R_'' @ word_id (fst wi) @ ''_'' @ string_of_nat (snd wi) @ ''_'' @ string_of_nat r,
      item_text = val_at (fst wi) 1, item_side = Side_right, item_state = St_default,
      matchKey = getMatchKey (fst wi)\<rparr>"

definition right_source ::
  "(nat \<Rightarrow> nat) \<Rightarrow> MatchingProps \<Rightarrow> Word list \<Rightarrow> Word list" where
  "right_source pick P batch =
     (let targetRightCount =
            max (length batch)
                (if optionsCount (m_config P) = 0 then length batch
                 else optionsCount (m_config P))
      in case m_dictionary P of
           None \<Rightarrow> batch
         | Some dict \<Rightarrow>
             if length batch < targetRightCount
             then (let pool = filter (\<lambda>w. word_id w \<notin> set (map word_id batch)) dict;
                       needed = targetRightCount - length batch;
                       available = min needed (length pool)
                   in if 0 < available
                      then batch @ take available (shuffleArray pick pool)
                      else batch)
             else batch)"

definition round_items ::
  "(nat \<Rightarrow> nat \<Rightarrow> nat) \<Rightarrow> MatchingProps \<Rightarrow> nat \<Rightarrow> Word list \<Rightarrow> MatchItem list" where
  "round_items rnd P r batch =
     (let leftItems = map (left_item r) (zip batch [0 ..< length batch]);
          rightSource = right_source (rnd (3 * r)) P batch;
          rightItems = map (right_item r) (zip rightSource [0 ..< length rightSource])
      in shuffleArray (rnd (3 * r + 1)) leftItems @ shuffleArray (rnd (3 * r + 2)) rightItems)"

text \<open>
  The round initialisation effect. It runs when \<open>roundIndex\<close> differs from the value it
  ran for last. It resets the transition lock at once (a ref) and requests the new
  items, an empty matched set and the first selection; these are rendered afterwards
  (\<open>init_render\<close>).
\<close>

definition init_effect ::
  "(nat \<Rightarrow> nat \<Rightarrow> nat) \<Rightarrow> MatchingProps \<Rightarrow> MatchState \<Rightarrow> MatchState" where
  "init_effect rnd P s =
     (if initDeps s = Some (roundIndex s) \<or> pendingInit s \<noteq> None then s
      else (case currentBatchM P s of
              None \<Rightarrow> s\<lparr>initDeps := Some (roundIndex s)\<rparr>
            | Some batch \<Rightarrow>
                s\<lparr>isTransitioningRef := False,
                  initDeps := Some (roundIndex s),
                  pendingInit := Some (round_items rnd P (roundIndex s) batch)\<rparr>))"

definition init_render :: "MatchState \<Rightarrow> MatchState" where
  "init_render s =
     (case pendingInit s of
        None \<Rightarrow> s
      | Some newItems \<Rightarrow>
          s\<lparr>items := newItems,
            matchesInRound := [],
            selectedLeft :=
              (case find (\<lambda>i. item_side i = Side_left) newItems of
                 Some firstLeft \<Rightarrow> Some (item_id firstLeft)
               | None \<Rightarrow> None),
            selectedRight := None,
            pendingInit := None\<rparr>)"

subsection \<open>Effects on selection and feedback\<close>

definition enforcer_effect :: "MatchingProps \<Rightarrow> MatchState \<Rightarrow> MatchState" where
  "enforcer_effect P s =
     (if isFinishedM s
         \<or> (case currentBatchM P s of
               None \<Rightarrow> False
             | Some batch \<Rightarrow> length (matchesInRound s) = length batch)
      then s
      else if \<not> truthy (selectedLeft s)
              \<and> \<not> (\<exists>i \<in> set (items s). item_state i = St_error)
              \<and> 0 < length (items s)
      then (case find (\<lambda>i. item_side i = Side_left \<and> item_state i \<noteq> St_matched) (items s) of
              Some candidate \<Rightarrow> s\<lparr>selectedLeft := Some (item_id candidate)\<rparr>
            | None \<Rightarrow> s)
      else s)"

text \<open>The timeout of the effect ``Auto-Reset Error/Hint State'' fires.\<close>

definition feedback_reset :: "MatchState \<Rightarrow> MatchState" where
  "feedback_reset s =
     s\<lparr>items :=
         map (\<lambda>i. if item_state i = St_error \<or> item_state i = St_success_hint
                   then i\<lparr>item_state := St_default\<rparr> else i)
             (items s)\<rparr>"

subsection \<open>Clicks\<close>

text \<open>
  \<open>checkMatch\<close>. In acceleration mode \<open>timer.accelerate(); timer.reset()\<close>: the \<open>reset\<close> at
  hand is the one of the last render, so it sets \<open>timeLeft\<close> to the limit before the
  acceleration.
\<close>

definition checkMatch :: "MatchingProps \<Rightarrow> string \<Rightarrow> string \<Rightarrow> MatchState \<Rightarrow> MatchState" where
  "checkMatch P leftId rightId s =
     (if isTransitioningRef s then s
      else (case (find (\<lambda>i. item_id i = leftId) (items s),
                  find (\<lambda>i. item_id i = rightId) (items s)) of
              (Some leftItem, Some rightItem) \<Rightarrow>
                if matchKey leftItem = matchKey rightItem
                then s\<lparr>items :=
                         map (\<lambda>i. if item_id i = leftId \<or> item_id i = rightId
                                   then i\<lparr>item_state := St_matched\<rparr> else i)
                             (items s),
                       matchesInRound := set_add leftId (matchesInRound s),
                       selectedLeft := None,
                       selectedRight := None,
                       scoreM := scoreM s + 1,
                       timerM :=
                         (if timerMode (m_config P) = TM_acceleration
                          then (accelerate (matching_timer_props P) (timerM s))
                                 \<lparr>timeLeft := currentLimit (timerM s), isRunning := True\<rparr>
                          else if timerMode (m_config P) = TM_per_question
                          then resetTimer (timerM s)
                          else timerM s)\<rparr>
                else (let correctRight =
                            find (\<lambda>i. item_side i = Side_right \<and> matchKey i = matchKey leftItem)
                                 (items s)
                      in s\<lparr>incorrectCount := incorrectCount s + 1,
                            items :=
                              map (\<lambda>i. if (item_side i = Side_left \<and> item_id i = leftId)
                                           \<or> (item_side i = Side_right \<and> item_id i = rightId)
                                        then i\<lparr>item_state := St_error\<rparr>
                                        else (case correctRight of
                                                Some c \<Rightarrow>
                                                  if item_id i = item_id c
                                                  then i\<lparr>item_state := St_success_hint\<rparr> else i
                                              | None \<Rightarrow> i))
                                  (items s),
                            selectedLeft := None,
                            selectedRight := None\<rparr>)
            | _ \<Rightarrow> s))"

text \<open>\<open>handleItemClick(item)\<close> for the item at position \<open>n\<close> of the rendered list.\<close>

definition handleItemClick :: "MatchingProps \<Rightarrow> nat \<Rightarrow> MatchState \<Rightarrow> MatchState" where
  "handleItemClick P n s =
     (if length (items s) \<le> n then s
      else (let item = items s ! n in
            if isFinishedM s \<or> item_state item = St_matched then s
            else if \<exists>i \<in> set (items s). item_state i = St_error \<or> item_state i = St_success_hint
            then s
            else if item_side item = Side_left
            then (if selectedLeft s = Some (item_id item) then s
                  else (let s1 = s\<lparr>selectedLeft := Some (item_id item)\<rparr>
                        in case selectedRight s of
                             Some r \<Rightarrow> if r \<noteq> [] then checkMatch P (item_id item) r s1 else s1
                           | None \<Rightarrow> s1))
            else (if selectedRight s = Some (item_id item) then s\<lparr>selectedRight := None\<rparr>
                  else (let s1 = s\<lparr>selectedRight := Some (item_id item)\<rparr>
                        in case selectedLeft s of
                             Some l \<Rightarrow> if l \<noteq> [] then checkMatch P l (item_id item) s1 else s1
                           | None \<Rightarrow> s1))))"

subsection \<open>Round completion\<close>

text \<open>
  The round completion watcher, lines 331--363, up to the \<open>setTimeout\<close>: it sets the lock,
  announces the completion and leaves a pending timeout holding the \<open>roundIndex\<close> and the
  \<open>finishGame\<close> of this render. \<open>sampleId\<close> is the first element of the matched set.
\<close>

definition completion_watcher :: "MatchingProps \<Rightarrow> MatchState \<Rightarrow> MatchState" where
  "completion_watcher P s =
     (case currentBatchM P s of
        None \<Rightarrow> s
      | Some batch \<Rightarrow>
          if isFinishedM s then s
          else if length (matchesInRound s) = length batch
          then (if (case matchesInRound s of
                      [] \<Rightarrow> False
                    | sampleId # _ \<Rightarrow>
                        sampleId \<noteq> []
                        \<and> \<not> suffix (''_'' @ string_of_nat (roundIndex s)) sampleId)
                then s
                else if isTransitioningRef s then s
                else s\<lparr>isTransitioningRef := True,
                       completions := completions s @ [roundIndex s],
                       transitionTimeouts :=
                         transitionTimeouts s @ [(roundIndex s, current_closure s)]\<rparr>)
          else s)"

text \<open>
  The callback of the oldest pending timeout runs: the next round, or, from the last
  round, \<open>finishGame(score)\<close> with the score of the render that set the timeout.
\<close>

definition transition_timeout :: "MatchingProps \<Rightarrow> nat \<Rightarrow> MatchState \<Rightarrow> MatchState" where
  "transition_timeout P now s =
     (case transitionTimeouts s of
        [] \<Rightarrow> s
      | (r, cl) # rest \<Rightarrow>
          (let s1 = s\<lparr>transitionTimeouts := rest\<rparr>
           in if int r < int (length (batches P)) - 1
              then s1\<lparr>roundIndex := roundIndex s1 + 1\<rparr>
              else finishGame P now cl (Some (cl_score cl)) s1))"

subsection \<open>Runs of the component\<close>

text \<open>
  What can happen to a mounted game, one event at a time: the effects, the clicks, the
  timeouts and the two timers. React runs the effects of one commit on the state of
  that render and renders the state they request before it handles anything else;
  so while the request of the initialisation effect is pending (\<open>pendingInit\<close>), only
  effects and the render of that request take place. \<open>Ev_second\<close> is the elapsed-time
  interval, \<open>Ev_timer_control\<close> the effect that stores \<open>timer.stop\<close> in \<open>timerControl\<close>.
\<close>

datatype MatchEvent =
    Ev_init_effect
  | Ev_init_render
  | Ev_game_end nat
  | Ev_enforcer
  | Ev_watcher
  | Ev_timer_control
  | Ev_feedback_reset
  | Ev_click nat
  | Ev_transition_timeout nat
  | Ev_time_up nat
  | Ev_second

fun match_step ::
  "(nat \<Rightarrow> nat \<Rightarrow> nat) \<Rightarrow> MatchingProps \<Rightarrow> MatchEvent \<Rightarrow> MatchState \<Rightarrow> MatchState" where
  "match_step rnd P Ev_init_effect s = init_effect rnd P s"
| "match_step rnd P Ev_init_render s = init_render s"
| "match_step rnd P (Ev_game_end now) s = game_end_effect P now s"
| "match_step rnd P Ev_enforcer s = enforcer_effect P s"
| "match_step rnd P Ev_watcher s = completion_watcher P s"
| "match_step rnd P Ev_timer_control s = s\<lparr>timerControl := True\<rparr>"
| "match_step rnd P Ev_feedback_reset s =
     (if pendingInit s \<noteq> None then s else feedback_reset s)"
| "match_step rnd P (Ev_click n) s =
     (if pendingInit s \<noteq> None then s else handleItemClick P n s)"
| "match_step rnd P (Ev_transition_timeout now) s =
     (if pendingInit s \<noteq> None then s else transition_timeout P now s)"
| "match_step rnd P (Ev_time_up now) s =
     (if pendingInit s \<noteq> None then s else handleTimeUpM P now s)"
| "match_step rnd P Ev_second s =
     (if pendingInit s \<noteq> None \<or> isFinishedM s then s
      else s\<lparr>elapsedTimeM := elapsedTimeM s + 1\<rparr>)"

fun match_run ::
  "(nat \<Rightarrow> nat \<Rightarrow> nat) \<Rightarrow> MatchingProps \<Rightarrow> MatchEvent list \<Rightarrow> MatchState \<Rightarrow> MatchState" where
  "match_run rnd P [] s = s"
| "match_run rnd P (e # es) s = match_run rnd P es (match_step rnd P e s)"

text \<open>
  The watcher gives a completion signal in state \<open>s\<close> when its run changes something
  (it sets the lock and the timeout).
\<close>

definition completion_signal :: "MatchingProps \<Rightarrow> MatchState \<Rightarrow> bool" where
  "completion_signal P s \<longleftrightarrow> completion_watcher P s \<noteq> s"

section \<open>Notions used in the proofs\<close>

text \<open>The value of a decimal digit (the inverse of \<open>digit_char\<close>).\<close>

definition digit_value :: "char \<Rightarrow> nat" where
  "digit_value c = length (takeWhile (\<lambda>x. x \<noteq> c) ''0123456789'')"

text \<open>
  An id belongs to the round instance \<open>r\<close> when it ends with \<open>_r\<close>: this is the test
  \<open>sampleId.endsWith(`_${roundIndex}`)\<close> of the watcher, and every item id is built with
  the round index at its end.
\<close>

definition round_tag :: "nat \<Rightarrow> string \<Rightarrow> bool" where
  "round_tag r x \<longleftrightarrow> suffix (''_'' @ string_of_nat r) x"

definition item_ids :: "MatchState \<Rightarrow> string list" where
  "item_ids s = map item_id (items s)"

text \<open>
  The invariant of the runs of the matching game that carries the claims on round
  completion:
  \<^item> every rendered item carries the tag of one round, the current one once the
    initialisation of the current round is rendered, an earlier one before that;
  \<^item> the matched set holds ids of rendered items only;
  \<^item> while the request of the initialisation effect is pending, the lock is open, no
    timeout is pending and the requested items carry the tag of the current round;
  \<^item> at most one transition timeout is pending, it was set in the current round by a
    render in which the game was not finished, and then the lock is closed and the round
    is recorded as completed;
  \<^item> no round is recorded as completed twice, every earlier round is recorded, no later
    one is;
  \<^item> when the current round is recorded as completed the lock is closed (it opens again
    only with the next round);
  \<^item> the round index stays within the batches.
\<close>

definition match_inv :: "MatchingProps \<Rightarrow> MatchState \<Rightarrow> bool" where
  "match_inv P s \<longleftrightarrow>
     (pendingInit s = None \<and> initDeps s = Some (roundIndex s) \<longrightarrow>
        (\<forall>x \<in> set (item_ids s). round_tag (roundIndex s) x))
   \<and> (\<not> (pendingInit s = None \<and> initDeps s = Some (roundIndex s)) \<longrightarrow>
        (\<forall>x \<in> set (item_ids s). \<exists>k < roundIndex s. round_tag k x))
   \<and> set (matchesInRound s) \<subseteq> set (item_ids s)
   \<and> (\<forall>new. pendingInit s = Some new \<longrightarrow>
          initDeps s = Some (roundIndex s) \<and> roundIndex s < length (batches P)
        \<and> (\<forall>i \<in> set new. round_tag (roundIndex s) (item_id i))
        \<and> \<not> isTransitioningRef s \<and> transitionTimeouts s = [])
   \<and> (transitionTimeouts s = []
        \<or> (\<exists>cl. transitionTimeouts s = [(roundIndex s, cl)] \<and> \<not> cl_isFinished cl)
          \<and> isTransitioningRef s \<and> initDeps s = Some (roundIndex s) \<and> pendingInit s = None
          \<and> roundIndex s < length (batches P) \<and> roundIndex s \<in> set (completions s))
   \<and> distinct (completions s)
   \<and> (\<forall>c \<in> set (completions s). c \<le> roundIndex s)
   \<and> (\<forall>r < roundIndex s. r \<in> set (completions s))
   \<and> (roundIndex s \<in> set (completions s) \<longrightarrow>
          isTransitioningRef s \<and> initDeps s = Some (roundIndex s) \<and> pendingInit s = None)
   \<and> (roundIndex s < length (batches P)
        \<or> (batches P = [] \<and> roundIndex s = 0 \<and> item_ids s = []))"

text \<open>
  The invariant that carries the claim on saving: the session log keeps the id it was
  created with; \<open>hasSaved\<close> and \<open>isFinished\<close> are set together; as long as \<open>hasSaved\<close> is
  not set the storage is the one the game was mounted with; once it is set, the stored history is that of the mount with the session
  log appended, or, if the stored value is no list, still the storage of the mount.
\<close>

definition save_inv :: "string \<Rightarrow> Storage \<Rightarrow> MatchState \<Rightarrow> bool" where
  "save_inv uuid st s \<longleftrightarrow>
     session_id (sessionLogRef s) = uuid
   \<and> (hasSaved s \<longleftrightarrow> isFinishedM s)
   \<and> (\<not> hasSaved s \<longrightarrow> localStorage s = st)
   \<and> (hasSaved s \<longrightarrow>
        (case getAllSessions st of
           JArray history \<Rightarrow>
             getAllSessions (localStorage s) = JArray (history @ [sessionLogRef s])
         | _ \<Rightarrow> localStorage s = st))"

text \<open>
  The invariant on the transition lock: once the items of the current round are
  rendered, the lock is closed only if the round is recorded as completed (the
  initialisation effect of the round opened it, and only the watcher closes it).
\<close>

definition lock_inv :: "MatchingProps \<Rightarrow> MatchState \<Rightarrow> bool" where
  "lock_inv P s \<longleftrightarrow>
     (isTransitioningRef s \<and> pendingInit s = None \<and> initDeps s = Some (roundIndex s)
        \<and> roundIndex s < length (batches P) \<longrightarrow>
      roundIndex s \<in> set (completions s))"

section \<open>Concrete inputs\<close>

text \<open>Small inputs on which the definitions are evaluated.\<close>

definition example_config :: GameConfig where
  "example_config =
     \<lparr>themeIds = [''t1''], wordCount = 0, game_mode = One_of_n, timerMode = TM_none,
      config_timeLimit = Num 30, direction = Ru_en, batchSize = 1, optionsCount = 4,
      totalQuestions = Some 1, isReplay = None, replaySessionId = None,
      accelerationStart = None, accelerationEnd = None\<rparr>"

definition example_timer_props :: UseTimerProps where
  "example_timer_props =
     \<lparr>mode = TM_none, timeLimit = Num 30, accelerationStep = Num (1 / 2), minTime = Num 2\<rparr>"

definition word_dom :: Word where
  "word_dom = \<lparr>word_id = ''1'', val = [''dom'', ''house'']\<rparr>"

definition word_kot :: Word where
  "word_kot = \<lparr>word_id = ''2'', val = [''kot'', ''cat'']\<rparr>"

text \<open>
  Stand-ins for \<open>trim\<close> and \<open>toLowerCase\<close> on texts of letters and blanks: the blanks at
  both ends removed, the capital letters \<open>A\<close> to \<open>Z\<close> replaced by the small ones.
\<close>

definition example_trim :: "string \<Rightarrow> string" where
  "example_trim t =
     rev (dropWhile (\<lambda>c. c = CHR '' '') (rev (dropWhile (\<lambda>c. c = CHR '' '') t)))"

definition example_toLowerCase :: "string \<Rightarrow> string" where
  "example_toLowerCase t =
     map (\<lambda>c. case map_of (zip ''ABCDEFGHIJKLMNOPQRSTUVWXYZ'' ''abcdefghijklmnopqrstuvwxyz'') c of
                Some l \<Rightarrow> l
              | None \<Rightarrow> c)
         t"

definition word_Dom :: Word where
  "word_Dom = \<lparr>word_id = ''3'', val = ['' Dom'', ''House '']\<rparr>"

definition unshuffled :: "nat \<Rightarrow> Word list \<Rightarrow> Word list" where
  "unshuffled i xs = xs"

definition example_config_en_ru :: GameConfig where
  "example_config_en_ru = example_config\<lparr>direction := En_ru\<rparr>"

definition example_question :: "string \<Rightarrow> QuestionLog" where
  "example_question i =
     \<lparr>wordId = i, options = [], correctId = i, selectedId = Some i, isCorrect = True,
      question_timeTaken = Num 0\<rparr>"

definition example_session :: SessionLog where
  "example_session =
     \<lparr>session_id = ''s1'', timestamp = 0, config = example_config,
      questions = [example_question ''2'', example_question ''9'', example_question ''1''],
      score = 3, mistakes = Some 0, totalWords = 2, timeTaken = Some 12\<rparr>"

definition example_matching_props :: MatchingProps where
  "example_matching_props =
     \<lparr>m_config = example_config\<lparr>game_mode := Matching\<rparr>, m_words = [word_dom, word_kot],
      m_dictionary = None, m_totalThemeWords = None\<rparr>"

definition no_random :: "nat \<Rightarrow> nat \<Rightarrow> nat" where
  "no_random call i = 0"

definition empty_storage :: Storage where
  "empty_storage = \<lparr>vocab_trainer_history = None\<rparr>"

chapter \<open>Properties\<close>

section \<open>Unfolding the concrete inputs\<close>

lemmas example_defs =
  example_config_def example_config_en_ru_def example_timer_props_def word_dom_def word_kot_def word_Dom_def example_trim_def example_toLowerCase_def
  unshuffled_def

section \<open>JavaScript numbers: rounding\<close>

lemma exp_up_nonneg: "0 \<le> exp_up n a"
  by (induction n arbitrary: a) simp_all















text \<open>
  Evaluation: the two exponent searches written so that they unfold on a numeral, and
  the definitions that make up \<open>fl\<close>.
\<close>

lemma exp_up_unfold:
  "exp_up n a = (if n = 0 then 0 else if a < 2 then 0 else exp_up (n - 1) (a / 2) + 1)"
  by (cases n) simp_all

lemma exp_down_unfold:
  "exp_down n a = (if n = 0 then 0 else if 1 \<le> a then 0 else exp_down (n - 1) (a * 2) - 1)"
  by (cases n) simp_all

lemmas fl_eval =
  fl_def rounded_def ulp_def exponent_def exp_up_unfold exp_down_unfold round_half_even_def
  Let_def power_int_minus

lemma tenth_eq: "tenth = Num (3602879701896397 / 36028797018963968)"
  by (simp add: tenth_def fl_eval)








section \<open>Timer engine: acceleration\<close>













section \<open>Timer engine: the countdown\<close>







lemma tick_idle: "\<not> isRunning s \<or> mode p = TM_none \<Longrightarrow> tick p s = s"
  by (auto simp add: tick_def)











lemma ticks_unfold: "ticks n p s = (if n = 0 then s else ticks (n - 1) p (tick p s))"
  by (cases n) simp_all

text \<open>The run the hook makes from one second: it expires on the eleventh firing.\<close>

lemma one_second_countdown:
  "ticks 10 \<lparr>mode = TM_global, timeLimit = Num 1, accelerationStep = Num 0, minTime = Num 1\<rparr>
     \<lparr>timeLeft = Num 1, currentLimit = Num 1, isRunning = True, timeUpCalls = 0\<rparr>
   = \<lparr>timeLeft = Num (5 / 36028797018963968), currentLimit = Num 1, isRunning = True,
      timeUpCalls = 0\<rparr>"
  "ticks 11 \<lparr>mode = TM_global, timeLimit = Num 1, accelerationStep = Num 0, minTime = Num 1\<rparr>
     \<lparr>timeLeft = Num 1, currentLimit = Num 1, isRunning = True, timeUpCalls = 0\<rparr>
   = \<lparr>timeLeft = Num 0, currentLimit = Num 1, isRunning = False, timeUpCalls = 1\<rparr>"
  by (simp_all add: ticks_unfold tick_def stopTimer_def tenth_eq fl_eval)




section \<open>Word pool resolver: deduplication\<close>

lemma contentKey_defined:
  "2 \<le> length (val w) \<Longrightarrow> \<exists>k. contentKey trim toLowerCase w = Inr k"
  by (cases "val w"; cases "tl (val w)") (auto simp add: contentKey_def split: list.splits)

lemma dedup_filter_total:
  "\<forall>w \<in> set ws. 2 \<le> length (val w) \<Longrightarrow>
   \<exists>kept. dedup_filter trim toLowerCase seen ws = Inr kept"
proof (induction ws arbitrary: seen)
  case Nil
  show ?case by simp
next
  case (Cons w ws)
  from Cons.prems obtain k where k: "contentKey trim toLowerCase w = Inr k"
    using contentKey_defined [of w trim toLowerCase] by auto
  from Cons.prems have rest: "\<forall>w \<in> set ws. 2 \<le> length (val w)" by simp
  show ?case
  proof (cases "k \<in> seen")
    case True
    with k show ?thesis using Cons.IH [OF rest, of seen] by simp
  next
    case False
    from Cons.IH [OF rest, of "insert k seen"] obtain kept
      where "dedup_filter trim toLowerCase (insert k seen) ws = Inr kept" ..
    with k False show ?thesis by simp
  qed
qed

lemma dedup_filter_kept:
  "dedup_filter trim toLowerCase seen ws = Inr kept \<Longrightarrow>
     distinct (map (contentKey trim toLowerCase) kept)
   \<and> (\<forall>w \<in> set kept. \<exists>k. contentKey trim toLowerCase w = Inr k \<and> k \<notin> seen)
   \<and> subseq kept ws
   \<and> (\<forall>k. k \<notin> seen \<longrightarrow>
         find (\<lambda>w. contentKey trim toLowerCase w = Inr k) kept =
         find (\<lambda>w. contentKey trim toLowerCase w = Inr k) ws)"
proof (induction ws arbitrary: seen kept)
  case Nil
  then show ?case by simp
next
  case (Cons w ws)
  let ?key = "contentKey trim toLowerCase"
  from Cons.prems obtain k where k: "?key w = Inr k"
    by (cases "?key w") simp_all
  show ?case
  proof (cases "k \<in> seen")
    case True
    with k Cons.prems have eq: "dedup_filter trim toLowerCase seen ws = Inr kept"
      by simp
    note ih = Cons.IH [OF eq]
    have "find (\<lambda>w. ?key w = Inr j) kept = find (\<lambda>w. ?key w = Inr j) (w # ws)"
      if "j \<notin> seen" for j
    proof -
      from that True have "j \<noteq> k" by auto
      with k that ih show ?thesis by simp
    qed
    moreover have "subseq kept (w # ws)"
      using ih by (blast intro: list_emb_Cons)
    ultimately show ?thesis using ih by blast
  next
    case False
    with k Cons.prems obtain kept' where
      eq: "dedup_filter trim toLowerCase (insert k seen) ws = Inr kept'"
      and kept: "kept = w # kept'"
      by (auto split: sum.splits)
    note ih = Cons.IH [OF eq]
    have fresh: "?key w \<notin> set (map ?key kept')"
    proof
      assume "?key w \<in> set (map ?key kept')"
      then obtain v where "v \<in> set kept'" and "?key v = Inr k"
        using k by auto
      with ih show False by auto
    qed
    have "find (\<lambda>w. ?key w = Inr j) kept = find (\<lambda>w. ?key w = Inr j) (w # ws)"
      if "j \<notin> seen" for j
    proof (cases "j = k")
      case True
      with k kept show ?thesis by simp
    next
      case False
      with that have "j \<notin> insert k seen" by simp
      with ih False k kept show ?thesis by simp
    qed
    moreover have "\<forall>v \<in> set kept. \<exists>j. ?key v = Inr j \<and> j \<notin> seen"
      using ih k False kept by auto
    moreover have "subseq kept (w # ws)"
      using ih kept by simp
    moreover have "distinct (map ?key kept)"
      using ih fresh kept by simp
    ultimately show ?thesis by blast
  qed
qed

lemma contentKey_texts:
  "2 \<le> length (val w) \<Longrightarrow>
   contentKey trim toLowerCase w =
     Inr (toLowerCase (trim (val w ! 0)) @ ''|||'' @ toLowerCase (trim (val w ! 1)))"
  by (cases "val w"; cases "tl (val w)") (auto simp add: contentKey_def split: list.splits)

lemma find_cong_set: "(\<And>x. x \<in> set xs \<Longrightarrow> P x = Q x) \<Longrightarrow> find P xs = find Q xs"
  by (induction xs) simp_all

text \<open>
  Claim C6. For loaded words that all carry a source and a target text, the
  deduplication returns a pool that keeps the load order and in which
  \<^item> no two entries have the same content key, the key of a word being its lower-cased,
    trimmed source text, the separator \<open>|||\<close> and its lower-cased, trimmed target text; in
    particular no two entries agree in both the lower-cased, trimmed source text and the
    lower-cased, trimmed target text;
  \<^item> for every loaded word the pool has an entry with the content key of that word, and
    the entry of the pool with that key is the first loaded word with that key.
  The same is stated through the key the filter callback computes (\<open>contentKey\<close>).
\<close>

theorem dedup_keeps_first_occurrence:
  fixes trim toLowerCase :: "string \<Rightarrow> string"
  defines "key \<equiv> \<lambda>w. toLowerCase (trim (val w ! 0)) @ ''|||'' @ toLowerCase (trim (val w ! 1))"
  assumes "\<forall>w \<in> set allThemeWordsRaw. 2 \<le> length (val w)"
  shows "\<exists>allThemeWords.
           dedupByContent trim toLowerCase allThemeWordsRaw = Inr allThemeWords
         \<and> distinct (map (contentKey trim toLowerCase) allThemeWords)
         \<and> subseq allThemeWords allThemeWordsRaw
         \<and> (\<forall>k. find (\<lambda>w. contentKey trim toLowerCase w = Inr k) allThemeWords =
                  find (\<lambda>w. contentKey trim toLowerCase w = Inr k) allThemeWordsRaw)
         \<and> distinct (map key allThemeWords)
         \<and> (\<forall>i < length allThemeWords. \<forall>j < length allThemeWords. i \<noteq> j \<longrightarrow>
                \<not> (toLowerCase (trim (val (allThemeWords ! i) ! 0)) =
                     toLowerCase (trim (val (allThemeWords ! j) ! 0))
                   \<and> toLowerCase (trim (val (allThemeWords ! i) ! 1)) =
                     toLowerCase (trim (val (allThemeWords ! j) ! 1))))
         \<and> (\<forall>w \<in> set allThemeWordsRaw.
                (\<exists>v \<in> set allThemeWords. key v = key w)
              \<and> find (\<lambda>v. key v = key w) allThemeWords =
                find (\<lambda>v. key v = key w) allThemeWordsRaw)"
proof -
  from dedup_filter_total [OF assms(2), of trim toLowerCase "{}"] obtain kept
    where kept: "dedup_filter trim toLowerCase {} allThemeWordsRaw = Inr kept" ..
  note k = dedup_filter_kept [OF kept]
  from k have "subseq kept allThemeWordsRaw"
    by simp
  then have sub: "set kept \<subseteq> set allThemeWordsRaw"
    by (auto dest: list_emb_set)
  have raw_key: "contentKey trim toLowerCase w = Inr (key w)" if "w \<in> set allThemeWordsRaw" for w
    using that assms(2) by (simp add: key_def contentKey_texts)
  then have kept_key: "contentKey trim toLowerCase w = Inr (key w)" if "w \<in> set kept" for w
    using that sub by blast
  have eq: "map (contentKey trim toLowerCase) kept = map Inr (map key kept)"
    using kept_key by simp
  from k have "distinct (map (contentKey trim toLowerCase) kept)"
    by simp
  then have "distinct (map Inr (map key kept) :: (js_error + string) list)"
    unfolding eq .
  then have "distinct (map key kept) \<and> inj_on (Inr :: string \<Rightarrow> js_error + string) (set (map key kept))"
    by (rule distinct_map [THEN iffD1])
  then have dist: "distinct (map key kept)" ..
  have pairs: "\<not> (toLowerCase (trim (val (kept ! i) ! 0)) = toLowerCase (trim (val (kept ! j) ! 0))
                 \<and> toLowerCase (trim (val (kept ! i) ! 1)) = toLowerCase (trim (val (kept ! j) ! 1)))"
    if "i < length kept" and "j < length kept" and "i \<noteq> j" for i j
  proof
    assume "toLowerCase (trim (val (kept ! i) ! 0)) = toLowerCase (trim (val (kept ! j) ! 0))
          \<and> toLowerCase (trim (val (kept ! i) ! 1)) = toLowerCase (trim (val (kept ! j) ! 1))"
    then have "map key kept ! i = map key kept ! j"
      using that by (simp add: key_def)
    with dist that show False
      by (simp add: distinct_conv_nth)
  qed
  have first: "(\<exists>v \<in> set kept. key v = key w)
             \<and> find (\<lambda>v. key v = key w) kept = find (\<lambda>v. key v = key w) allThemeWordsRaw"
    if w: "w \<in> set allThemeWordsRaw" for w
  proof -
    have "find (\<lambda>v. key v = key w) kept =
          find (\<lambda>v. contentKey trim toLowerCase v = Inr (key w)) kept"
      by (rule find_cong_set) (simp add: kept_key)
    also have "\<dots> = find (\<lambda>v. contentKey trim toLowerCase v = Inr (key w)) allThemeWordsRaw"
      using k by simp
    also have "\<dots> = find (\<lambda>v. key v = key w) allThemeWordsRaw"
      by (rule find_cong_set) (simp add: raw_key)
    finally have eq: "find (\<lambda>v. key v = key w) kept =
                      find (\<lambda>v. key v = key w) allThemeWordsRaw" .
    from w have "find (\<lambda>v. key v = key w) allThemeWordsRaw \<noteq> None"
      by (auto simp add: find_None_iff)
    with eq have "find (\<lambda>v. key v = key w) kept \<noteq> None"
      by simp
    then have "\<exists>v \<in> set kept. key v = key w"
      by (auto simp add: find_None_iff)
    with eq show ?thesis by simp
  qed
  from k kept dist pairs first show ?thesis
    by (simp add: dedupByContent_def)
qed

theorem dedup_keeps_first_occurrence_witness:
  "dedupByContent example_trim example_toLowerCase [word_Dom, word_kot, word_dom]
   = Inr [word_Dom, word_kot]
   \<and> example_toLowerCase (example_trim (val word_Dom ! 0)) @ ''|||''
       @ example_toLowerCase (example_trim (val word_Dom ! 1)) = ''dom|||house''
   \<and> example_toLowerCase (example_trim (val word_dom ! 0)) @ ''|||''
       @ example_toLowerCase (example_trim (val word_dom ! 1)) = ''dom|||house''
   \<and> (\<exists>pool. dedupByContent example_trim example_toLowerCase [word_Dom, word_kot, word_dom]
                 = Inr pool
        \<and> distinct (map (\<lambda>w. example_toLowerCase (example_trim (val w ! 0)) @ ''|||''
                               @ example_toLowerCase (example_trim (val w ! 1))) pool))"
  using dedup_keeps_first_occurrence
    [where allThemeWordsRaw = "[word_Dom, word_kot, word_dom]" and trim = example_trim
       and toLowerCase = example_toLowerCase]
  by (simp add: dedupByContent_def contentKey_def example_defs)

section \<open>Word pool resolver: the question sequence\<close>

lemma rearranges_length: "rearranges shuffle \<Longrightarrow> length (shuffle i xs) = length xs"
  unfolding rearranges_def by (metis size_mset)

lemma rearranges_set: "rearranges shuffle \<Longrightarrow> set (shuffle i xs) = set xs"
  unfolding rearranges_def by (metis set_mset_mset)

text \<open>
  The loop returns for a subset that is not empty: each round adds at least one word, so
  the distance to the target length shrinks.
\<close>

lemma fill_sequence_returns:
  assumes "rearranges shuffle" and "subset' \<noteq> []"
  shows "\<exists>r. fill_sequence shuffle i subset' n sequence = Some r
           \<and> n \<le> int (length r) \<and> length sequence \<le> length r
           \<and> set r \<subseteq> set sequence \<union> set subset'"
proof (induction "nat (n - int (length sequence))" arbitrary: sequence i rule: less_induct)
  case less
  show ?case
  proof (cases "int (length sequence) < n")
    case False
    then show ?thesis
      by (subst fill_sequence.simps) simp
  next
    case True
    let ?next = "sequence @ shuffle i subset'"
    have len: "length (shuffle i subset') = length subset'"
      using assms(1) by (rule rearranges_length)
    with assms(2) have "0 < length (shuffle i subset')" by simp
    with True have "nat (n - int (length ?next)) < nat (n - int (length sequence))"
      by simp
    from less [OF this, of "Suc i"] obtain r where
      r: "fill_sequence shuffle (Suc i) subset' n ?next = Some r"
         "n \<le> int (length r)" "length ?next \<le> length r"
         "set r \<subseteq> set ?next \<union> set subset'"
      by blast
    have "fill_sequence shuffle i subset' n sequence = Some r"
      using True r(1) by (subst fill_sequence.simps) simp
    moreover have "set r \<subseteq> set sequence \<union> set subset'"
      using r(4) rearranges_set [OF assms(1), of i subset'] by auto
    moreover have "length sequence \<le> length r"
      using r(3) by simp
    ultimately show ?thesis using r(2) by blast
  qed
qed

lemma build_sequence_returns:
  assumes "rearranges shuffle" and "subset' \<noteq> []" and "0 < n"
  shows "\<exists>sequence. build_sequence shuffle i subset' n = Some sequence
           \<and> int (length sequence) = n
           \<and> set sequence \<subseteq> set subset'"
proof -
  from fill_sequence_returns [OF assms(1,2), of i n "[]"] obtain r where
    r: "fill_sequence shuffle i subset' n [] = Some r" "n \<le> int (length r)"
       "set r \<subseteq> set subset'"
    by auto
  have "build_sequence shuffle i subset' n = Some (take (nat n) r)"
    using assms(2,3) r(1) by (simp add: build_sequence_def slice0_def)
  moreover have "int (length (take (nat n) r)) = n"
    using r(2) assms(3) by simp
  moreover have "set (take (nat n) r) \<subseteq> set subset'"
    using r(3) set_take_subset [of "nat n" r] by blast
  ultimately show ?thesis by simp
qed

text \<open>
  Claim C2. For a configuration with \<open>totalQuestions = N\<close>, \<open>N > 0\<close>, and a subset that is
  not empty, the third step of \<open>handleStartGame\<close> returns (the loop ends) a sequence of
  length exactly \<open>N\<close>, every element of which is a word of the subset; this holds for
  every way the shuffles may order the words.
\<close>

theorem question_sequence_length:
  assumes "rearranges shuffle" and "subset' \<noteq> []"
    and "totalQuestions c = Some N" and "0 < N"
  shows "\<exists>sequence. build_sequence shuffle i subset' (questionCount c) = Some sequence
           \<and> int (length sequence) = N
           \<and> set sequence \<subseteq> set subset'"
proof -
  from assms(3,4) have "questionCount c = N"
    by (simp add: questionCount_def)
  with build_sequence_returns [OF assms(1,2,4), of i] show ?thesis
    by simp
qed

theorem question_sequence_length_witness:
  "build_sequence (\<lambda>i xs. xs) 1
     [\<lparr>word_id = ''1'', val = [''a'', ''b'']\<rparr>, \<lparr>word_id = ''2'', val = [''c'', ''d'']\<rparr>]
     (questionCount
        \<lparr>themeIds = [], wordCount = 2, game_mode = One_of_n, timerMode = TM_none,
         config_timeLimit = Num 30, direction = Ru_en, batchSize = 1, optionsCount = 5,
         totalQuestions = Some 5, isReplay = None, replaySessionId = None,
         accelerationStart = None, accelerationEnd = None\<rparr>)
   = Some [\<lparr>word_id = ''1'', val = [''a'', ''b'']\<rparr>, \<lparr>word_id = ''2'', val = [''c'', ''d'']\<rparr>,
           \<lparr>word_id = ''1'', val = [''a'', ''b'']\<rparr>, \<lparr>word_id = ''2'', val = [''c'', ''d'']\<rparr>,
           \<lparr>word_id = ''1'', val = [''a'', ''b'']\<rparr>]"
proof -
  let ?c = "\<lparr>themeIds = [], wordCount = 2, game_mode = One_of_n, timerMode = TM_none,
         config_timeLimit = Num 30, direction = Ru_en, batchSize = 1, optionsCount = 5,
         totalQuestions = Some 5, isReplay = None, replaySessionId = None,
         accelerationStart = None, accelerationEnd = None\<rparr>"
  let ?s = "[\<lparr>word_id = ''1'', val = [''a'', ''b'']\<rparr>, \<lparr>word_id = ''2'', val = [''c'', ''d'']\<rparr>]"
  have perm: "rearranges (\<lambda>i xs. xs)"
    by (simp add: rearranges_def)
  from question_sequence_length [OF perm, of ?s ?c 5 1] obtain sequence where
    s: "build_sequence (\<lambda>i xs. xs) 1 ?s (questionCount ?c) = Some sequence"
       "int (length sequence) = 5"
    by auto
  have "build_sequence (\<lambda>i xs. xs) 1 ?s (questionCount ?c) =
        Some (take 5 (?s @ ?s @ ?s))"
    by (simp add: build_sequence_def questionCount_def slice0_def fill_sequence.simps)
  then show ?thesis by simp
qed

text \<open>
  The whole of \<open>handleStartGame\<close>: for loaded words that all carry both texts, a game is
  started; its sequence has the configured length in both directions. In the normal
  direction the dictionary is the deduplicated pool and the sequence consists of words of
  the pool; in the swapped direction both are the images of the pool under the two maps
  of step 4.
\<close>

lemma dedup_filter_not_empty:
  assumes "dedup_filter trim toLowerCase {} (w # ws) = Inr kept"
  shows "kept \<noteq> []"
proof -
  from assms obtain k where k: "contentKey trim toLowerCase w = Inr k"
    by (cases "contentKey trim toLowerCase w") simp_all
  from dedup_filter_kept [OF assms] have
    "find (\<lambda>x. contentKey trim toLowerCase x = Inr k) kept =
     find (\<lambda>x. contentKey trim toLowerCase x = Inr k) (w # ws)"
    by simp
  with k show ?thesis by auto
qed

lemma handleStartGame_starts:
  assumes "rearranges shuffle" and "allThemeWordsRaw \<noteq> []"
    and "\<forall>w \<in> set allThemeWordsRaw. 2 \<le> length (val w)"
    and "totalQuestions c = Some N" and "0 < N"
  shows "\<exists>g allThemeWords.
           dedupByContent trim toLowerCase allThemeWordsRaw = Inr allThemeWords
         \<and> handleStartGame trim toLowerCase shuffle c allThemeWordsRaw = Some (Inr g)
         \<and> int (length (activeWords g)) = N
         \<and> (direction c = Ru_en \<longrightarrow>
               dictionary g = allThemeWords \<and> set (activeWords g) \<subseteq> set allThemeWords)
         \<and> (direction c = En_ru \<longrightarrow>
               dictionary g = map swap_dictionary_word allThemeWords
             \<and> set (activeWords g) \<subseteq> swap_sequence_word ` set allThemeWords)"
proof -
  from dedup_filter_total [OF assms(3), of trim toLowerCase "{}"] obtain pool
    where pool: "dedupByContent trim toLowerCase allThemeWordsRaw = Inr pool"
    by (auto simp add: dedupByContent_def)
  from assms(2) obtain w ws where "allThemeWordsRaw = w # ws"
    by (cases allThemeWordsRaw) auto
  with pool have filled: "pool \<noteq> []"
    using dedup_filter_not_empty [of trim toLowerCase w ws pool]
    by (simp add: dedupByContent_def)
  let ?shuffled = "shuffle 0 pool"
  let ?subset = "if 0 < wordCount c then slice0 ?shuffled (wordCount c) else ?shuffled"
  have shuffled: "?shuffled \<noteq> []" "set ?shuffled = set pool"
    using filled rearranges_length [OF assms(1), of 0 pool] rearranges_set [OF assms(1), of 0 pool]
    by auto
  have subset: "?subset \<noteq> []" "set ?subset \<subseteq> set pool"
    using shuffled set_take_subset [of "nat (wordCount c)" ?shuffled]
    by (auto simp add: slice0_def)
  from assms(4,5) have qc: "questionCount c = N"
    by (simp add: questionCount_def)
  from build_sequence_returns [OF assms(1) subset(1) assms(5), of 1] obtain sequence where
    seq: "build_sequence shuffle 1 ?subset N = Some sequence"
         "int (length sequence) = N" "set sequence \<subseteq> set ?subset"
    by blast
  from seq(3) subset(2) have members: "set sequence \<subseteq> set pool" by blast
  show ?thesis
  proof (cases "direction c")
    case Ru_en
    have "handleStartGame trim toLowerCase shuffle c allThemeWordsRaw =
        Some (Inr \<lparr>activeWords = sequence, dictionary = pool,
                   totalThemeWords = length allThemeWordsRaw, activeConfig = c\<rparr>)"
      using assms(2) pool seq(1) qc Ru_en by (simp add: handleStartGame_def Let_def)
    with pool seq(2) members Ru_en show ?thesis by simp
  next
    case En_ru
    have "handleStartGame trim toLowerCase shuffle c allThemeWordsRaw =
        Some (Inr \<lparr>activeWords = map swap_sequence_word sequence,
                   dictionary = map swap_dictionary_word pool,
                   totalThemeWords = length allThemeWordsRaw, activeConfig = c\<rparr>)"
      using assms(2) pool seq(1) qc En_ru by (simp add: handleStartGame_def Let_def)
    with pool seq(2) members En_ru show ?thesis by auto
  qed
qed

section \<open>Replay reconstruction\<close>

lemma replay_word_id: "word_id (replay_word allThemeWords q) = wordId q"
proof (cases "find (\<lambda>w. word_id w = wordId q) allThemeWords")
  case None
  then show ?thesis by (simp add: replay_word_def placeholder_word_def)
next
  case (Some w)
  then have "word_id w = wordId q"
    by (auto simp add: find_Some_iff)
  with Some show ?thesis by (simp add: replay_word_def)
qed

lemma replay_word_missing:
  "wordId q \<notin> word_id ` set allThemeWords \<Longrightarrow>
   replay_word allThemeWords q = \<lparr>word_id = wordId q, val = [''?'', ''Error: Word Removed'']\<rparr>"
proof -
  assume "wordId q \<notin> word_id ` set allThemeWords"
  then have "find (\<lambda>w. word_id w = wordId q) allThemeWords = None"
    by (force simp add: find_None_iff)
  then show ?thesis by (simp add: replay_word_def placeholder_word_def)
qed

lemma replay_word_present:
  "wordId q \<in> word_id ` set allThemeWords \<Longrightarrow>
   find (\<lambda>w. word_id w = wordId q) allThemeWords = Some (replay_word allThemeWords q)
   \<and> replay_word allThemeWords q \<in> set allThemeWords"
proof -
  assume "wordId q \<in> word_id ` set allThemeWords"
  then obtain w where w: "find (\<lambda>w. word_id w = wordId q) allThemeWords = Some w"
    by (cases "find (\<lambda>w. word_id w = wordId q) allThemeWords")
       (auto simp add: find_None_iff)
  then have "w \<in> set allThemeWords"
    by (auto simp add: find_Some_iff)
  with w show ?thesis by (simp add: replay_word_def)
qed

text \<open>
  Claim C8. For a session with logged questions, \<open>handleReplay\<close> starts the replay with
  a sequence that has one word per logged question, in the order of the log: the word at
  position \<open>i\<close> carries the word id of the \<open>i\<close>-th logged question; it is the first word
  of the loaded theme data with that id when there is one, and otherwise the placeholder
  \<open>{id, val: ['?', 'Error: Word Removed']}\<close> with that id.
\<close>

theorem replay_sequence_matches_log:
  assumes "questions session \<noteq> []"
  shows "\<exists>r. handleReplay session allThemeWords = Inr r
           \<and> length (replay_activeWords r) = length (questions session)
           \<and> (\<forall>i < length (questions session).
                 word_id (replay_activeWords r ! i) = wordId (questions session ! i)
               \<and> (wordId (questions session ! i) \<in> word_id ` set allThemeWords \<longrightarrow>
                    find (\<lambda>w. word_id w = wordId (questions session ! i)) allThemeWords
                      = Some (replay_activeWords r ! i))
               \<and> (wordId (questions session ! i) \<notin> word_id ` set allThemeWords \<longrightarrow>
                    replay_activeWords r ! i =
                      \<lparr>word_id = wordId (questions session ! i),
                       val = [''?'', ''Error: Word Removed'']\<rparr>))"
proof -
  let ?seq = "map (replay_word allThemeWords) (questions session)"
  have at: "?seq ! i = replay_word allThemeWords (questions session ! i)"
    if "i < length (questions session)" for i
    using that by simp
  obtain r where r: "handleReplay session allThemeWords = Inr r"
    and words: "replay_activeWords r = ?seq"
    using assms by (simp add: handleReplay_def)
  have "length (replay_activeWords r) = length (questions session)"
    using words by simp
  moreover have "\<forall>i < length (questions session).
      word_id (replay_activeWords r ! i) = wordId (questions session ! i)
    \<and> (wordId (questions session ! i) \<in> word_id ` set allThemeWords \<longrightarrow>
         find (\<lambda>w. word_id w = wordId (questions session ! i)) allThemeWords
           = Some (replay_activeWords r ! i))
    \<and> (wordId (questions session ! i) \<notin> word_id ` set allThemeWords \<longrightarrow>
         replay_activeWords r ! i =
           \<lparr>word_id = wordId (questions session ! i), val = [''?'', ''Error: Word Removed'']\<rparr>)"
  proof (intro allI impI conjI)
    fix i assume i: "i < length (questions session)"
    show "word_id (replay_activeWords r ! i) = wordId (questions session ! i)"
      using words at [OF i] by (simp add: replay_word_id)
    show "find (\<lambda>w. word_id w = wordId (questions session ! i)) allThemeWords
            = Some (replay_activeWords r ! i)"
      if "wordId (questions session ! i) \<in> word_id ` set allThemeWords"
      using words at [OF i] replay_word_present [OF that] by simp
    show "replay_activeWords r ! i =
           \<lparr>word_id = wordId (questions session ! i), val = [''?'', ''Error: Word Removed'']\<rparr>"
      if "wordId (questions session ! i) \<notin> word_id ` set allThemeWords"
      using words at [OF i] replay_word_missing [OF that] by simp
  qed
  ultimately show ?thesis using r by blast
qed

theorem replay_sequence_matches_log_witness:
  "questions example_session \<noteq> []
   \<and> (\<exists>r. handleReplay example_session [word_dom, word_kot] = Inr r
          \<and> length (replay_activeWords r) = 3
          \<and> replay_activeWords r =
              [word_kot, \<lparr>word_id = ''9'', val = [''?'', ''Error: Word Removed'']\<rparr>, word_dom])"
  using replay_sequence_matches_log [of example_session "[word_dom, word_kot]"]
  by (simp add: example_session_def example_question_def handleReplay_def replay_word_def
        placeholder_word_def word_dom_def word_kot_def)

section \<open>Choice round engine: scoring\<close>

lemma set_set_add [simp]: "set (set_add x s) = insert x (set s)"
  by (auto simp add: set_add_def)

lemma find_word_id:
  "find (\<lambda>q. word_id q = i) ws = Some w \<Longrightarrow> word_id w = i \<and> w \<in> set ws"
  by (induction ws) (auto split: if_splits)

lemma find_word_id_None:
  "find (\<lambda>q. word_id q = i) ws = None \<longleftrightarrow> i \<notin> word_id ` set ws"
  by (induction ws) auto

text \<open>The three outcomes of \<open>handleOptionClick\<close>, by the conditions the handler tests.\<close>

lemma handleOptionClick_wrong:
  assumes "selectedQuestionId s = Some q" and "q \<noteq> []"
    and "q \<in> word_id ` set (currentBatch s)"
    and "optionId \<notin> set (correctMatchIds s)" and "optionId \<noteq> q"
  shows "handleOptionClick optionId s =
           s\<lparr>wrongIds := set_add optionId (wrongIds s),
             mistakesC := mistakesC s + 1,
             taintedQuestionIds := set_add q (taintedQuestionIds s)\<rparr>"
proof -
  from assms(3) obtain w where w: "find (\<lambda>x. word_id x = q) (currentBatch s) = Some w"
    by (cases "find (\<lambda>x. word_id x = q) (currentBatch s)")
       (simp_all add: find_word_id_None)
  then have "word_id w = q" by (blast dest: find_word_id)
  with assms w show ?thesis
    by (simp add: handleOptionClick_def)
qed

lemma handleOptionClick_correct:
  assumes "selectedQuestionId s = Some q" and "q \<noteq> []"
    and "q \<in> word_id ` set (currentBatch s)" and "q \<notin> set (correctMatchIds s)"
  shows "scoreC (handleOptionClick q s) =
           scoreC s + (if q \<in> set (taintedQuestionIds s) then 0 else 1)"
    and "mistakesC (handleOptionClick q s) = mistakesC s"
    and "taintedQuestionIds (handleOptionClick q s) = taintedQuestionIds s"
    and "q \<in> set (resolvedIds (handleOptionClick q s))"
    and "q \<in> set (correctMatchIds (handleOptionClick q s))"
proof -
  from assms(3) obtain w where w: "find (\<lambda>x. word_id x = q) (currentBatch s) = Some w"
    by (cases "find (\<lambda>x. word_id x = q) (currentBatch s)")
       (simp_all add: find_word_id_None)
  then have wq: "word_id w = q" by (blast dest: find_word_id)
  show "scoreC (handleOptionClick q s) =
           scoreC s + (if q \<in> set (taintedQuestionIds s) then 0 else 1)"
    using assms w wq by (simp add: handleOptionClick_def Let_def)
  show "mistakesC (handleOptionClick q s) = mistakesC s"
    using assms w wq by (simp add: handleOptionClick_def Let_def)
  show "taintedQuestionIds (handleOptionClick q s) = taintedQuestionIds s"
    using assms w wq by (simp add: handleOptionClick_def Let_def)
  show "q \<in> set (resolvedIds (handleOptionClick q s))"
    using assms w wq by (simp add: handleOptionClick_def Let_def)
  show "q \<in> set (correctMatchIds (handleOptionClick q s))"
    using assms w wq by (simp add: handleOptionClick_def Let_def)
qed

lemma handleOptionClick_tainted:
  "set (taintedQuestionIds (handleOptionClick optionId s)) =
   set (taintedQuestionIds s) \<union> {q. wrong_answer s (OptionClick optionId) q}"
proof (cases "\<exists>q. wrong_answer s (OptionClick optionId) q")
  case True
  then obtain q where q: "wrong_answer s (OptionClick optionId) q" ..
  then have only: "{q. wrong_answer s (OptionClick optionId) q} = {q}"
    by (auto simp add: wrong_answer_def)
  from q have "handleOptionClick optionId s =
           s\<lparr>wrongIds := set_add optionId (wrongIds s),
             mistakesC := mistakesC s + 1,
             taintedQuestionIds := set_add q (taintedQuestionIds s)\<rparr>"
    by (intro handleOptionClick_wrong) (simp_all add: wrong_answer_def)
  with only show ?thesis by simp
next
  case False
  then have none: "{q. wrong_answer s (OptionClick optionId) q} = {}" by simp
  have "taintedQuestionIds (handleOptionClick optionId s) = taintedQuestionIds s"
  proof (cases "selectedQuestionId s")
    case None
    then show ?thesis by (simp add: handleOptionClick_def)
  next
    case (Some q)
    show ?thesis
    proof (cases "find (\<lambda>x. word_id x = q) (currentBatch s)")
      case None
      with Some show ?thesis by (simp add: handleOptionClick_def)
    next
      case found: (Some w)
      then have wq: "word_id w = q" and "q \<in> word_id ` set (currentBatch s)"
        by (blast dest: find_word_id)+
      with False Some have "q = [] \<or> optionId \<in> set (correctMatchIds s) \<or> optionId = q"
        by (auto simp add: wrong_answer_def)
      with Some found wq show ?thesis
        by (auto simp add: handleOptionClick_def Let_def)
    qed
  qed
  with none show ?thesis by simp
qed

lemma choice_click_tainted:
  "set (taintedQuestionIds (choice_click e s)) =
   set (taintedQuestionIds s) \<union> {q. wrong_answer s e q}"
proof (cases e)
  case (QuestionClick i)
  then show ?thesis
    by (simp add: handleQuestionClick_def wrong_answer_def)
next
  case (OptionClick i)
  then show ?thesis
    by (simp add: handleOptionClick_tainted)
qed

lemma choice_clicks_tainted:
  "set (taintedQuestionIds (choice_clicks es s)) =
   set (taintedQuestionIds s) \<union> {q. answered_wrong s es q}"
proof (induction es arbitrary: s)
  case Nil
  show ?case by simp
next
  case (Cons e es)
  show ?case
    using Cons.IH [of "choice_click e s"] choice_click_tainted [of e s]
    by auto
qed

lemma initBatch_untainted:
  "initBatch shuffle c words fullDictionary s = Some s0 \<Longrightarrow> \<not> isFinishedC s \<Longrightarrow>
   taintedQuestionIds s0 = []"
  by (auto simp add: initBatch_def Let_def split: if_splits)

text \<open>
  Claim C1. Let \<open>s0\<close> be the state in which the batch initialisation effect leaves a
  running game, and \<open>s\<close> the state after any clicks \<open>es\<close> on questions and options of
  this batch. A click on the option of the selected question \<open>q\<close> (a correct resolution)
  adds exactly 1 to the score if \<open>q\<close> was never answered wrong during \<open>es\<close>, and adds
  nothing if it was; it leaves the mistake count as it is and resolves \<open>q\<close>. A click on
  any other option that is not matched yet (a wrong click) adds exactly 1 to the
  mistake count, leaves the score as it is and taints \<open>q\<close>.
\<close>

theorem choice_scoring_taint:
  assumes "initBatch shuffle c words fullDictionary sp = Some s0" and "\<not> isFinishedC sp"
    and "s = choice_clicks es s0"
    and "selectedQuestionId s = Some q" and "q \<noteq> []"
    and "q \<in> word_id ` set (currentBatch s)"
  shows "(q \<notin> set (correctMatchIds s) \<longrightarrow>
            scoreC (handleOptionClick q s) = scoreC s + (if answered_wrong s0 es q then 0 else 1)
          \<and> mistakesC (handleOptionClick q s) = mistakesC s
          \<and> q \<in> set (resolvedIds (handleOptionClick q s)))
       \<and> (optionId \<notin> set (correctMatchIds s) \<and> optionId \<noteq> q \<longrightarrow>
            mistakesC (handleOptionClick optionId s) = mistakesC s + 1
          \<and> scoreC (handleOptionClick optionId s) = scoreC s
          \<and> q \<in> set (taintedQuestionIds (handleOptionClick optionId s))
          \<and> answered_wrong s0 (es @ [OptionClick optionId]) q)"
proof (intro conjI impI)
  have "taintedQuestionIds s0 = []"
    using assms(1,2) by (rule initBatch_untainted)
  then have tainted: "q \<in> set (taintedQuestionIds s) \<longleftrightarrow> answered_wrong s0 es q"
    using choice_clicks_tainted [of es s0] assms(3) by simp
  assume fresh: "q \<notin> set (correctMatchIds s)"
  show "scoreC (handleOptionClick q s) = scoreC s + (if answered_wrong s0 es q then 0 else 1)"
    using handleOptionClick_correct(1) [OF assms(4,5,6) fresh] tainted by simp
  show "mistakesC (handleOptionClick q s) = mistakesC s"
    using assms(4,5,6) fresh by (rule handleOptionClick_correct(2))
  show "q \<in> set (resolvedIds (handleOptionClick q s))"
    using assms(4,5,6) fresh by (rule handleOptionClick_correct(4))
next
  assume wrong: "optionId \<notin> set (correctMatchIds s) \<and> optionId \<noteq> q"
  then have eq: "handleOptionClick optionId s =
           s\<lparr>wrongIds := set_add optionId (wrongIds s),
             mistakesC := mistakesC s + 1,
             taintedQuestionIds := set_add q (taintedQuestionIds s)\<rparr>"
    using assms(4,5,6) by (intro handleOptionClick_wrong) simp_all
  show "mistakesC (handleOptionClick optionId s) = mistakesC s + 1"
    by (simp add: eq)
  show "scoreC (handleOptionClick optionId s) = scoreC s"
    by (simp add: eq)
  show "q \<in> set (taintedQuestionIds (handleOptionClick optionId s))"
    by (simp add: eq)
  have "wrong_answer s (OptionClick optionId) q"
    using wrong assms(4,5,6) by (simp add: wrong_answer_def)
  moreover have "answered_wrong s0 (es @ [e]) q \<longleftrightarrow>
                 answered_wrong s0 es q \<or> wrong_answer (choice_clicks es s0) e q" for e
    by (induction es arbitrary: s0) simp_all
  ultimately show "answered_wrong s0 (es @ [OptionClick optionId]) q"
    using assms(3) by simp
qed

lemma example_initBatch:
  "initBatch unshuffled example_config [word_dom] [word_dom, word_kot]
     (choice_mount example_timer_props)
   = Some ((choice_mount example_timer_props)
       \<lparr>currentBatch := [word_dom], optionsC := [word_dom, word_kot],
        selectedQuestionId := Some ''1'',
        timerC := resetTimer (useTimer_init example_timer_props)\<rparr>)"
  by (simp add: initBatch_def batch_slice_def generate_options_def distractor_pool_def slice0_def
      choice_mount_def example_defs)

text \<open>
  The scenario of the specification: a batch of one question, one wrong guess, then the
  right one. The mistake count is 1 and the question adds nothing to the score; answered
  right at once, it adds 1.
\<close>

theorem choice_scoring_taint_witness:
  "scoreC (handleOptionClick ''1''
     (choice_clicks [OptionClick ''2'']
        (the (initBatch unshuffled example_config [word_dom] [word_dom, word_kot]
                (choice_mount example_timer_props))))) = 0
   \<and> mistakesC (choice_clicks [OptionClick ''2'']
        (the (initBatch unshuffled example_config [word_dom] [word_dom, word_kot]
                (choice_mount example_timer_props)))) = 1
   \<and> scoreC (handleOptionClick ''1''
        (the (initBatch unshuffled example_config [word_dom] [word_dom, word_kot]
                (choice_mount example_timer_props)))) = 1"
proof -
  let ?sp = "choice_mount example_timer_props"
  let ?s0 = "?sp\<lparr>currentBatch := [word_dom], optionsC := [word_dom, word_kot],
        selectedQuestionId := Some ''1'',
        timerC := resetTimer (useTimer_init example_timer_props)\<rparr>"
  have init: "initBatch unshuffled example_config [word_dom] [word_dom, word_kot] ?sp = Some ?s0"
    by (rule example_initBatch)
  have running: "\<not> isFinishedC ?sp"
    by (simp add: choice_mount_def)
  show ?thesis
    unfolding init option.sel
    using choice_scoring_taint [OF init running refl, of "[OptionClick ''2'']" "''1''" "''3''"]
    by (simp add: handleOptionClick_def set_add_def word_dom_def choice_mount_def
          Let_def wrong_answer_def)
qed

section \<open>Choice round engine: options\<close>

lemma distractor_pool_member:
  "w \<in> set (distractor_pool fullDictionary batchOfWords) \<longleftrightarrow>
   w \<in> set fullDictionary \<and> word_id w \<notin> word_id ` set batchOfWords"
  by (simp add: distractor_pool_def find_word_id_None)

lemma slice0_subset: "set (slice0 xs n) \<subseteq> set xs"
  by (auto simp add: slice0_def dest: in_set_takeD)

lemma slice0_length: "0 \<le> n \<Longrightarrow> length (slice0 xs n) = min (nat n) (length xs)"
  by (simp add: slice0_def)

text \<open>
  What the generated options are, whatever the shuffles do: the words of the batch
  together with words of the dictionary whose ids differ from every id in the batch, no
  more than \<open>optionsCount\<close> (or the batch size, if that is larger) in all.
\<close>

lemma generate_options_members:
  assumes "rearranges shuffle"
    and "w \<in> set (generate_options shuffle c fullDictionary batchOfWords)"
  shows "w \<in> set batchOfWords
       \<or> (w \<in> set fullDictionary \<and> word_id w \<notin> word_id ` set batchOfWords)"
proof -
  let ?needed = "int (if optionsCount c = 0 then 5 else optionsCount c) - int (length batchOfWords)"
  let ?pool = "distractor_pool fullDictionary batchOfWords"
  from assms(2) have "w \<in> set (batchOfWords @ slice0 (shuffle 0 ?pool) (max 0 ?needed))"
    using rearranges_set [OF assms(1)] by (simp add: generate_options_def Let_def)
  then have "w \<in> set batchOfWords \<or> w \<in> set (shuffle 0 ?pool)"
    using slice0_subset [of "shuffle 0 ?pool" "max 0 ?needed"] by auto
  then have "w \<in> set batchOfWords \<or> w \<in> set ?pool"
    using rearranges_set [OF assms(1)] by simp
  then show ?thesis by (simp add: distractor_pool_member)
qed

lemma generate_options_length:
  assumes "rearranges shuffle"
  shows "length (generate_options shuffle c fullDictionary batchOfWords) \<le>
         max (if optionsCount c = 0 then 5 else optionsCount c) (length batchOfWords)"
proof -
  let ?needed = "int (if optionsCount c = 0 then 5 else optionsCount c) - int (length batchOfWords)"
  let ?pool = "distractor_pool fullDictionary batchOfWords"
  have "length (generate_options shuffle c fullDictionary batchOfWords) =
        length batchOfWords + length (slice0 (shuffle 0 ?pool) (max 0 ?needed))"
    using rearranges_length [OF assms] by (simp add: generate_options_def Let_def)
  also have "\<dots> = length batchOfWords + min (nat (max 0 ?needed)) (length (shuffle 0 ?pool))"
    by (simp add: slice0_length)
  also have "\<dots> \<le> length batchOfWords + nat (max 0 ?needed)"
    by simp
  also have "\<dots> \<le> max (if optionsCount c = 0 then 5 else optionsCount c) (length batchOfWords)"
    by (cases "optionsCount c = 0") (auto simp add: max_def)
  finally show ?thesis .
qed

lemma mset_take_subset: "mset (take n xs) \<subseteq># mset xs"
proof -
  have "mset xs = mset (take n xs) + mset (drop n xs)"
    by (metis append_take_drop_id mset_append)
  then show ?thesis by simp
qed

lemma take_slice:
  "take (min (a + k) (length xs) - a) (drop a xs) = take k (drop a xs)"
  by (cases "a + k \<le> length xs") (simp_all add: min_def)

lemma distractor_pool_filter:
  "distractor_pool fullDictionary batchOfWords =
   filter (\<lambda>w. word_id w \<notin> word_id ` set batchOfWords) fullDictionary"
  unfolding distractor_pool_def by (rule filter_cong) (simp_all add: find_word_id_None)

lemma rearranges_unshuffled: "rearranges unshuffled"
  by (simp add: rearranges_def unshuffled_def)

text \<open>
  Claim C9. A word is identified by its id. For every batch that the batch initialisation
  effect sets up in a game that is not finished, whatever the configuration (of either
  direction), the sequence, the dictionary and the shuffles:
  \<^item> the batch is the next \<open>batchSize\<close> words of the sequence;
  \<^item> the options are the words of the batch together with distractors, in some order;
  \<^item> the distractors are drawn, without repetition of an entry, from the entries of the
    dictionary whose id is not the id of a word of the batch, as many as are missing up
    to \<open>optionsCount\<close> (all of them if there are fewer);
  \<^item> so no distractor has the id of a word of the batch, and the options are at most
    \<open>optionsCount\<close>, or as many as the batch has words if that is more.
  The sequence and the dictionary are arbitrary here; they are in particular those that
  \<open>handleStartGame\<close> hands over in the normal and in the swapped direction.
\<close>

theorem choice_options_exclude_batch_ids:
  fixes c :: GameConfig and s' :: ChoiceState and fullDictionary :: "Word list"
  defines "perScreen \<equiv> (if batchSize c = 0 then 1 else batchSize c)"
    and "wanted \<equiv> (if optionsCount c = 0 then 5 else optionsCount c)"
    and "candidates \<equiv> filter (\<lambda>w. word_id w \<notin> word_id ` set (currentBatch s')) fullDictionary"
  assumes "rearranges shuffle" and "\<not> isFinishedC s"
    and "initBatch shuffle c words fullDictionary s = Some s'"
  shows "currentBatch s' = take perScreen (drop (batchIndex s * perScreen) words)
       \<and> (\<exists>distractors.
             mset (optionsC s') = mset (currentBatch s') + mset distractors
           \<and> mset distractors \<subseteq># mset candidates
           \<and> length distractors = min (wanted - length (currentBatch s')) (length candidates)
           \<and> (\<forall>d \<in> set distractors.
                 d \<in> set fullDictionary \<and> (\<forall>b \<in> set (currentBatch s'). word_id d \<noteq> word_id b)))
       \<and> length (optionsC s') \<le> max wanted (length (currentBatch s'))"
proof -
  let ?batch = "batch_slice c words (batchIndex s)"
  let ?needed = "int wanted - int (length ?batch)"
  let ?pool = "distractor_pool fullDictionary ?batch"
  let ?distractors = "slice0 (shuffle 0 ?pool) (max 0 ?needed)"
  from assms(5,6) have batch: "currentBatch s' = ?batch"
    and opts: "optionsC s' = generate_options shuffle c fullDictionary ?batch"
    by (auto simp add: initBatch_def Let_def split: if_splits)
  have slice: "?batch = take perScreen (drop (batchIndex s * perScreen) words)"
    by (simp only: batch_slice_def Let_def perScreen_def take_slice)
  have candidates: "?pool = candidates"
    by (simp add: distractor_pool_filter candidates_def batch)
  have take: "?distractors = take (wanted - length ?batch) (shuffle 0 ?pool)"
    by (simp add: slice0_def nat_diff_distrib' max_def)
  have "mset (optionsC s') = mset (?batch @ ?distractors)"
    using assms(4) by (simp add: opts generate_options_def Let_def rearranges_def wanted_def)
  then have m1: "mset (optionsC s') = mset (currentBatch s') + mset ?distractors"
    by (simp add: batch)
  have "mset ?distractors \<subseteq># mset (shuffle 0 ?pool)"
    unfolding take by (rule mset_take_subset)
  also have "mset (shuffle 0 ?pool) = mset candidates"
    using assms(4) by (simp add: rearranges_def candidates)
  finally have m2: "mset ?distractors \<subseteq># mset candidates" .
  have m3: "length ?distractors = min (wanted - length (currentBatch s')) (length candidates)"
    unfolding take using rearranges_length [OF assms(4), of 0 ?pool] by (simp add: batch candidates)
  have m4: "d \<in> set fullDictionary \<and> (\<forall>b \<in> set (currentBatch s'). word_id d \<noteq> word_id b)"
    if "d \<in> set ?distractors" for d
  proof -
    from that m2 have "d \<in> set candidates"
      by (metis mset_subset_eqD set_mset_mset)
    then show ?thesis
      by (auto simp add: candidates_def)
  qed
  have m5: "length (optionsC s') \<le> max wanted (length (currentBatch s'))"
    unfolding opts batch wanted_def using assms(4) by (rule generate_options_length)
  from slice m1 m2 m3 m4 m5 show ?thesis
    unfolding batch [symmetric] by blast
qed

theorem choice_options_exclude_batch_ids_witness:
  "handleStartGame (\<lambda>x. x) (\<lambda>x. x) unshuffled example_config_en_ru [word_dom, word_kot] =
     Some (Inr \<lparr>activeWords = [\<lparr>word_id = ''1_dir'', val = [''house'', ''dom'']\<rparr>],
                dictionary = [\<lparr>word_id = ''1'', val = [''house'', ''dom'']\<rparr>,
                              \<lparr>word_id = ''2'', val = [''cat'', ''kot'']\<rparr>],
                totalThemeWords = 2,
                activeConfig = example_config_en_ru\<rparr>)
   \<and> initBatch unshuffled example_config_en_ru
        [\<lparr>word_id = ''1_dir'', val = [''house'', ''dom'']\<rparr>]
        [\<lparr>word_id = ''1'', val = [''house'', ''dom'']\<rparr>, \<lparr>word_id = ''2'', val = [''cat'', ''kot'']\<rparr>]
        (choice_mount example_timer_props)
      = Some ((choice_mount example_timer_props)
          \<lparr>currentBatch := [\<lparr>word_id = ''1_dir'', val = [''house'', ''dom'']\<rparr>],
           optionsC := [\<lparr>word_id = ''1_dir'', val = [''house'', ''dom'']\<rparr>,
                        \<lparr>word_id = ''1'', val = [''house'', ''dom'']\<rparr>,
                        \<lparr>word_id = ''2'', val = [''cat'', ''kot'']\<rparr>],
           selectedQuestionId := Some ''1_dir'',
           timerC := resetTimer (useTimer_init example_timer_props)\<rparr>)
   \<and> ''1'' \<noteq> ''1_dir'' \<and> ''2'' \<noteq> ''1_dir''
   \<and> handleStartGame (\<lambda>x. x) (\<lambda>x. x) unshuffled example_config [word_dom, word_kot] =
     Some (Inr \<lparr>activeWords = [word_dom], dictionary = [word_dom, word_kot],
                totalThemeWords = 2, activeConfig = example_config\<rparr>)
   \<and> initBatch unshuffled example_config [word_dom] [word_dom, word_kot]
        (choice_mount example_timer_props)
      = Some ((choice_mount example_timer_props)
          \<lparr>currentBatch := [word_dom],
           optionsC := [word_dom, word_kot],
           selectedQuestionId := Some ''1'',
           timerC := resetTimer (useTimer_init example_timer_props)\<rparr>)"
  using choice_options_exclude_batch_ids
    [where shuffle = unshuffled and c = example_config_en_ru
       and words = "[\<lparr>word_id = ''1_dir'', val = [''house'', ''dom'']\<rparr>]"
       and fullDictionary = "[\<lparr>word_id = ''1'', val = [''house'', ''dom'']\<rparr>,
                             \<lparr>word_id = ''2'', val = [''cat'', ''kot'']\<rparr>]"
       and s = "choice_mount example_timer_props"
       and s' = "(choice_mount example_timer_props)
          \<lparr>currentBatch := [\<lparr>word_id = ''1_dir'', val = [''house'', ''dom'']\<rparr>],
           optionsC := [\<lparr>word_id = ''1_dir'', val = [''house'', ''dom'']\<rparr>,
                        \<lparr>word_id = ''1'', val = [''house'', ''dom'']\<rparr>,
                        \<lparr>word_id = ''2'', val = [''cat'', ''kot'']\<rparr>],
           selectedQuestionId := Some ''1_dir'',
           timerC := resetTimer (useTimer_init example_timer_props)\<rparr>"]
    rearranges_unshuffled
  by (simp add: handleStartGame_def dedupByContent_def contentKey_def build_sequence_def
      questionCount_def slice0_def swap_sequence_word_def swap_dictionary_word_def
      fill_sequence.simps initBatch_def batch_slice_def generate_options_def
      distractor_pool_def choice_mount_def example_config_def example_config_en_ru_def
      example_timer_props_def word_dom_def word_kot_def unshuffled_def)

text \<open>
  In the swapped direction \<open>handleStartGame\<close> puts the suffix \<open>_dir\<close> on the ids of the
  sequence and leaves the ids of the dictionary as they are. No id of the dictionary is
  then the id of a word of the batch: the dictionary's entry for the word asked (the
  same two texts under the id without the suffix) is among the candidates, and a click on
  it counts as a mistake.
\<close>

lemma swapped_direction_dictionary_entry:
  "mistakesC (handleOptionClick ''1''
        ((choice_mount example_timer_props)
          \<lparr>currentBatch := [\<lparr>word_id = ''1_dir'', val = [''house'', ''dom'']\<rparr>],
           optionsC := [\<lparr>word_id = ''1_dir'', val = [''house'', ''dom'']\<rparr>,
                        \<lparr>word_id = ''1'', val = [''house'', ''dom'']\<rparr>,
                        \<lparr>word_id = ''2'', val = [''cat'', ''kot'']\<rparr>],
           selectedQuestionId := Some ''1_dir'',
           timerC := resetTimer (useTimer_init example_timer_props)\<rparr>)) = 1"
  by (simp add: handleOptionClick_def choice_mount_def)

section \<open>History manager\<close>

lemma getAllSessions_absent:
  "vocab_trainer_history st = None \<Longrightarrow> getAllSessions st = JArray []"
  by (simp add: getAllSessions_def)

lemma getAllSessions_not_json:
  "vocab_trainer_history st = Some (Not_json t) \<Longrightarrow> getAllSessions st = JArray []"
  by (simp add: getAllSessions_def is_empty_string_def JSON_parse_def)

lemma getAllSessions_json:
  "vocab_trainer_history st = Some (Json v) \<Longrightarrow> getAllSessions st = v"
  by (simp add: getAllSessions_def is_empty_string_def JSON_parse_def)

lemma saveSession_appends:
  "getAllSessions st = JArray history \<Longrightarrow>
   \<exists>st'. saveSession session st = Inr st' \<and> getAllSessions st' = JArray (history @ [session])"
  by (simp add: saveSession_def getAllSessions_def is_empty_string_def JSON_parse_def
      JSON_stringify_def)

text \<open>
  Claim C10 at the stored text \<open>{}\<close> (valid JSON for an object): \<open>getAllSessions\<close>
  returns the object, not a list, and both \<open>saveSession\<close> and \<open>deleteSession\<close> end in a
  \<open>TypeError\<close>. For a missing item and for text that is not JSON the result is the empty
  list, as the claim says (\<open>getAllSessions_absent\<close>, \<open>getAllSessions_not_json\<close>).
\<close>

theorem getAllSessions_object_is_no_list:
  "getAllSessions \<lparr>vocab_trainer_history = Some (Json JObject)\<rparr> = JObject
   \<and> saveSession example_session \<lparr>vocab_trainer_history = Some (Json JObject)\<rparr> = Inl TypeError
   \<and> deleteSession ''s1'' \<lparr>vocab_trainer_history = Some (Json JObject)\<rparr> = Inl TypeError"
  by (simp add: getAllSessions_def saveSession_def deleteSession_def is_empty_string_def
      JSON_parse_def)

text \<open>
  Claim C3, as the specification words it, fails on \<open>HistoryManager.saveSession\<close>: it
  appends whatever it is given and looks at no id. Saving the same session log a second
  time changes the storage and leaves two records with that id.
\<close>

theorem saveSession_twice_counterexample:
  "saveSession example_session \<lparr>vocab_trainer_history = None\<rparr>
     = Inr \<lparr>vocab_trainer_history = Some (Json (JArray [example_session]))\<rparr>
   \<and> saveSession example_session \<lparr>vocab_trainer_history = Some (Json (JArray [example_session]))\<rparr>
     = Inr \<lparr>vocab_trainer_history = Some (Json (JArray [example_session, example_session]))\<rparr>
   \<and> \<lparr>vocab_trainer_history = Some (Json (JArray [example_session, example_session]))\<rparr>
     \<noteq> \<lparr>vocab_trainer_history = Some (Json (JArray [example_session]))\<rparr>"
  by (simp add: saveSession_def getAllSessions_def is_empty_string_def JSON_parse_def
      JSON_stringify_def)

section \<open>Matching round engine: ids and round tags\<close>

lemma digit_cases:
  "d < 10 \<Longrightarrow> d = 0 \<or> d = 1 \<or> d = 2 \<or> d = 3 \<or> d = 4 \<or> d = 5 \<or> d = 6 \<or> d = 7 \<or> d = 8 \<or> d = (9::nat)"
  by arith

lemma digit_value_digit_char: "d < 10 \<Longrightarrow> digit_value (digit_char d) = d"
  by (drule digit_cases) (auto simp add: digit_value_def digit_char_def)

lemma digit_char_not_underscore: "d < 10 \<Longrightarrow> digit_char d \<noteq> CHR ''_''"
  by (drule digit_cases) (auto simp add: digit_char_def)

lemma digit_char_inj: "a < 10 \<Longrightarrow> b < 10 \<Longrightarrow> digit_char a = digit_char b \<Longrightarrow> a = b"
  by (metis digit_value_digit_char)

lemma string_of_nat_not_empty: "string_of_nat n \<noteq> []"
  by (subst string_of_nat.simps) simp

lemma string_of_nat_no_underscore: "CHR ''_'' \<notin> set (string_of_nat n)"
proof (induction n rule: string_of_nat.induct)
  case (1 n)
  show ?case
  proof (cases "n < 10")
    case True
    then show ?thesis
      using digit_char_not_underscore [of n] by (subst string_of_nat.simps) auto
  next
    case False
    have "n mod 10 < 10" by simp
    then have "digit_char (n mod 10) \<noteq> CHR ''_''" by (rule digit_char_not_underscore)
    with False 1 show ?thesis
      by (subst string_of_nat.simps) auto
  qed
qed

lemma string_of_nat_inj: "string_of_nat a = string_of_nat b \<Longrightarrow> a = b"
proof (induction a arbitrary: b rule: string_of_nat.induct)
  case (1 a)
  show ?case
  proof (cases "a < 10")
    case small_a: True
    show ?thesis
    proof (cases "b < 10")
      case True
      with small_a "1.prems" have "digit_char a = digit_char b"
        by (simp add: string_of_nat.simps [of a] string_of_nat.simps [of b])
      with small_a True show ?thesis by (rule digit_char_inj)
    next
      case False
      with small_a "1.prems" have "string_of_nat (b div 10) = []"
        by (simp add: string_of_nat.simps [of a] string_of_nat.simps [of b])
      then show ?thesis by (simp add: string_of_nat_not_empty)
    qed
  next
    case big_a: False
    show ?thesis
    proof (cases "b < 10")
      case True
      with big_a "1.prems" have "string_of_nat (a div 10) = []"
        by (simp add: string_of_nat.simps [of a] string_of_nat.simps [of b])
      then show ?thesis by (simp add: string_of_nat_not_empty)
    next
      case False
      with big_a "1.prems" have
        front: "string_of_nat (a div 10) = string_of_nat (b div 10)"
        and last: "digit_char (a mod 10) = digit_char (b mod 10)"
        by (simp_all add: string_of_nat.simps [of a] string_of_nat.simps [of b])
      from "1.IH" [OF big_a front] have "a div 10 = b div 10" .
      moreover from last have "a mod 10 = b mod 10"
        by (intro digit_char_inj) simp_all
      ultimately show ?thesis
        by (metis div_mult_mod_eq)
    qed
  qed
qed

text \<open>An id ends with the tag of one round only.\<close>

lemma round_tag_unique:
  assumes "round_tag a x" and "round_tag b x"
  shows "a = b"
proof -
  have one: "string_of_nat c = string_of_nat d"
    if "suffix (CHR ''_'' # string_of_nat c) (CHR ''_'' # string_of_nat d)" for c d
  proof -
    from that have "CHR ''_'' # string_of_nat c = CHR ''_'' # string_of_nat d
        \<or> suffix (CHR ''_'' # string_of_nat c) (string_of_nat d)"
      by (simp add: suffix_Cons)
    moreover have "\<not> suffix (CHR ''_'' # string_of_nat c) (string_of_nat d)"
    proof
      assume "suffix (CHR ''_'' # string_of_nat c) (string_of_nat d)"
      then have "set (CHR ''_'' # string_of_nat c) \<subseteq> set (string_of_nat d)"
        by (rule set_mono_suffix)
      then show False using string_of_nat_no_underscore [of d] by simp
    qed
    ultimately show ?thesis by simp
  qed
  from assms have "suffix (''_'' @ string_of_nat a) (''_'' @ string_of_nat b)
      \<or> suffix (''_'' @ string_of_nat b) (''_'' @ string_of_nat a)"
    unfolding round_tag_def by (rule suffix_same_cases)
  then have "string_of_nat a = string_of_nat b"
    using one [of a b] one [of b a] by auto
  then show ?thesis by (rule string_of_nat_inj)
qed

lemma round_tag_not_empty: "round_tag r x \<Longrightarrow> x \<noteq> []"
  by (auto simp add: round_tag_def)

lemma round_tag_append: "round_tag r (pre @ ''_'' @ string_of_nat r)"
  unfolding round_tag_def by (rule suffix_appendI) simp

section \<open>Matching round engine: batches and items\<close>

lemma fisher_yates_mset: "i < length xs \<Longrightarrow> mset (fisher_yates pick i xs) = mset xs"
proof (induction i arbitrary: xs)
  case 0
  show ?case by simp
next
  case (Suc i)
  let ?j = "pick (Suc i) mod (Suc i + 1)"
  let ?xs = "xs[Suc i := xs ! ?j, ?j := xs ! Suc i]"
  have "?j < Suc i + 1" by (rule mod_less_divisor) simp
  with Suc.prems have j: "?j < length xs" by linarith
  have "mset ?xs = mset xs"
    using j Suc.prems by (rule mset_swap)
  moreover have "mset (fisher_yates pick i ?xs) = mset ?xs"
    using Suc.prems by (intro Suc.IH) simp
  ultimately show ?case by (simp add: Let_def)
qed

lemma shuffleArray_mset: "mset (shuffleArray pick xs) = mset xs"
proof (cases xs)
  case Nil
  then show ?thesis by (simp add: shuffleArray_def)
next
  case (Cons x ys)
  then have "length xs - 1 < length xs" by simp
  then show ?thesis unfolding shuffleArray_def by (rule fisher_yates_mset)
qed

lemma shuffleArray_set: "set (shuffleArray pick xs) = set xs"
  using shuffleArray_mset [of pick xs] by (metis set_mset_mset)

lemma round_items_tagged:
  "i \<in> set (round_items rnd P r batch) \<Longrightarrow> round_tag r (item_id i)"
proof -
  assume "i \<in> set (round_items rnd P r batch)"
  then have "(\<exists>wi. i = left_item r wi) \<or> (\<exists>wi. i = right_item r wi)"
    by (auto simp add: round_items_def Let_def shuffleArray_set)
  then show ?thesis
  proof
    assume "\<exists>wi. i = left_item r wi"
    then obtain wi where "i = left_item r wi" ..
    then have "item_id i =
        (''L_'' @ word_id (fst wi) @ ''_'' @ string_of_nat (snd wi)) @ ''_'' @ string_of_nat r"
      by (simp add: left_item_def)
    then show ?thesis by (simp only: round_tag_append)
  next
    assume "\<exists>wi. i = right_item r wi"
    then obtain wi where "i = right_item r wi" ..
    then have "item_id i =
        (''R_'' @ word_id (fst wi) @ ''_'' @ string_of_nat (snd wi)) @ ''_'' @ string_of_nat r"
      by (simp add: right_item_def)
    then show ?thesis by (simp only: round_tag_append)
  qed
qed

lemma batch_size_pos: "0 < batch_size P"
  by (simp add: batch_size_def)

lemma batches_not_empty:
  assumes "r < length (batches P)"
  shows "batches P ! r \<noteq> []"
proof -
  let ?z = "batch_size P" and ?n = "length (m_words P)"
  from assms have r: "r < (?n + ?z - 1) div ?z"
    by (simp add: batches_def)
  have "r * ?z < ?n"
  proof (rule ccontr)
    assume "\<not> r * ?z < ?n"
    then have "?n + ?z - 1 < (r + 1) * ?z"
      using batch_size_pos [of P] by simp
    then have "(?n + ?z - 1) div ?z < r + 1"
      using batch_size_pos [of P] by (simp add: div_less_iff_less_mult)
    with r show False by simp
  qed
  moreover have "batches P ! r = take ?z (drop (r * ?z) (m_words P))"
    using r by (simp add: batches_def)
  ultimately show ?thesis
    using batch_size_pos [of P] by simp
qed

section \<open>Matching round engine: what each step leaves alone\<close>

lemma match_inv_frame:
  assumes "match_inv P s"
    and "roundIndex s' = roundIndex s" and "item_ids s' = item_ids s"
    and "set (matchesInRound s') \<subseteq> set (matchesInRound s) \<union> set (item_ids s)"
    and "isTransitioningRef s' = isTransitioningRef s"
    and "transitionTimeouts s' = transitionTimeouts s"
    and "initDeps s' = initDeps s" and "pendingInit s' = pendingInit s"
    and "completions s' = completions s"
  shows "match_inv P s'"
proof -
  from assms(1) have "set (matchesInRound s) \<subseteq> set (item_ids s)"
    by (simp add: match_inv_def)
  with assms(4) have "set (matchesInRound s') \<subseteq> set (item_ids s)" by blast
  with assms(1) show ?thesis
    unfolding match_inv_def assms(2,3,5-9) by blast
qed

lemma finishGame_control:
  "roundIndex (finishGame P now cl f s) = roundIndex s"
  "items (finishGame P now cl f s) = items s"
  "matchesInRound (finishGame P now cl f s) = matchesInRound s"
  "isTransitioningRef (finishGame P now cl f s) = isTransitioningRef s"
  "transitionTimeouts (finishGame P now cl f s) = transitionTimeouts s"
  "initDeps (finishGame P now cl f s) = initDeps s"
  "pendingInit (finishGame P now cl f s) = pendingInit s"
  "completions (finishGame P now cl f s) = completions s"
  by (simp_all add: finishGame_def Let_def split: sum.split)

lemma ids_of_state_update:
  "map item_id (map (\<lambda>i. if c i then i\<lparr>item_state := x\<rparr> else i) xs) = map item_id xs"
  by (induction xs) simp_all

lemma find_item_id:
  "find (\<lambda>i. item_id i = x) xs = Some y \<Longrightarrow> x \<in> set (map item_id xs)"
  by (induction xs) (auto split: if_splits)


lemma checkMatch_control:
  "roundIndex (checkMatch P l r s) = roundIndex s"
  "isTransitioningRef (checkMatch P l r s) = isTransitioningRef s"
  "transitionTimeouts (checkMatch P l r s) = transitionTimeouts s"
  "initDeps (checkMatch P l r s) = initDeps s"
  "pendingInit (checkMatch P l r s) = pendingInit s"
  "completions (checkMatch P l r s) = completions s"
  by (simp_all add: checkMatch_def Let_def split: option.split)

lemma checkMatch_item_ids: "item_ids (checkMatch P l r s) = item_ids s"
proof -
  have hint: "map item_id
       (map (\<lambda>i. if c i then i\<lparr>item_state := St_error\<rparr>
                 else (case cr of
                         Some c' \<Rightarrow> if item_id i = item_id c' then i\<lparr>item_state := St_success_hint\<rparr> else i
                       | None \<Rightarrow> i)) xs) = map item_id xs" for c cr and xs :: "MatchItem list"
    by (induction xs) (simp_all split: option.split)
  show ?thesis
    by (simp add: checkMatch_def item_ids_def Let_def ids_of_state_update hint
        split: option.split)
qed

lemma checkMatch_matches:
  "set (matchesInRound (checkMatch P l r s)) \<subseteq> set (matchesInRound s) \<union> set (item_ids s)"
  by (auto simp add: checkMatch_def item_ids_def Let_def split: option.split
      dest: find_item_id)

lemma checkMatch_inv: "match_inv P s \<Longrightarrow> match_inv P (checkMatch P l r s)"
  by (erule match_inv_frame)
     (simp_all add: checkMatch_control checkMatch_item_ids checkMatch_matches)

lemma match_inv_selection:
  "match_inv P (s\<lparr>selectedLeft := x\<rparr>) = match_inv P s"
  "match_inv P (s\<lparr>selectedRight := x\<rparr>) = match_inv P s"
  by (simp_all add: match_inv_def item_ids_def)

lemma handleItemClick_inv: "match_inv P s \<Longrightarrow> match_inv P (handleItemClick P n s)"
  by (simp add: handleItemClick_def Let_def checkMatch_inv match_inv_selection
      split: option.split)

lemma enforcer_effect_inv: "match_inv P s \<Longrightarrow> match_inv P (enforcer_effect P s)"
  by (simp add: enforcer_effect_def match_inv_selection split: option.split)

lemma feedback_reset_inv: "match_inv P s \<Longrightarrow> match_inv P (feedback_reset s)"
  by (erule match_inv_frame)
     (simp_all add: feedback_reset_def item_ids_def ids_of_state_update)

lemma finishGame_inv: "match_inv P s \<Longrightarrow> match_inv P (finishGame P now cl f s)"
  by (erule match_inv_frame) (simp_all add: finishGame_control item_ids_def)

lemma game_end_effect_inv: "match_inv P s \<Longrightarrow> match_inv P (game_end_effect P now s)"
  by (simp add: game_end_effect_def finishGame_inv)

lemma handleTimeUpM_inv: "match_inv P s \<Longrightarrow> match_inv P (handleTimeUpM P now s)"
  by (simp add: handleTimeUpM_def finishGame_inv)

section \<open>Matching round engine: the invariant\<close>

lemma match_mount_inv: "match_inv P (match_mount P uuid now st)"
  by (auto simp add: match_inv_def match_mount_def item_ids_def)

lemma currentBatchM_Some:
  "currentBatchM P s = Some batch \<Longrightarrow>
   roundIndex s < length (batches P) \<and> batch = batches P ! roundIndex s \<and> batch \<noteq> []"
  by (auto simp add: currentBatchM_def batches_not_empty split: if_splits)

lemma currentBatchM_None:
  "currentBatchM P s = None \<Longrightarrow> length (batches P) \<le> roundIndex s"
  by (auto simp add: currentBatchM_def split: if_splits)

lemma init_effect_inv:
  assumes "match_inv P s"
  shows "match_inv P (init_effect rnd P s)"
proof (cases "initDeps s = Some (roundIndex s) \<or> pendingInit s \<noteq> None")
  case True
  with assms show ?thesis by (simp add: init_effect_def)
next
  case False
  then have deps: "initDeps s \<noteq> Some (roundIndex s)" and idle: "pendingInit s = None"
    by simp_all
  from assms deps have quiet: "transitionTimeouts s = []"
    and fresh: "roundIndex s \<notin> set (completions s)"
    by (auto simp add: match_inv_def)
  show ?thesis
  proof (cases "currentBatchM P s")
    case None
    then have "length (batches P) \<le> roundIndex s" by (rule currentBatchM_None)
    with assms have "item_ids s = []"
      by (auto simp add: match_inv_def)
    moreover from this assms have "matchesInRound s = []"
      by (auto simp add: match_inv_def)
    moreover have "init_effect rnd P s = s\<lparr>initDeps := Some (roundIndex s)\<rparr>"
      using False None by (simp add: init_effect_def)
    ultimately show ?thesis
      using assms idle quiet fresh
      by (auto simp add: match_inv_def item_ids_def)
  next
    case (Some batch)
    then have inside: "roundIndex s < length (batches P)"
      by (simp add: currentBatchM_Some)
    have eq: "init_effect rnd P s =
        s\<lparr>isTransitioningRef := False, initDeps := Some (roundIndex s),
          pendingInit := Some (round_items rnd P (roundIndex s) batch)\<rparr>"
      using False Some by (simp add: init_effect_def)
    have old: "\<forall>x \<in> set (item_ids s). \<exists>k < roundIndex s. round_tag k x"
      using assms deps by (auto simp add: match_inv_def)
    show ?thesis
      unfolding eq
      using assms idle quiet fresh inside old round_items_tagged [of _ rnd P "roundIndex s" batch]
      by (auto simp add: match_inv_def item_ids_def)
  qed
qed


lemma init_render_inv:
  assumes "match_inv P s"
  shows "match_inv P (init_render s)"
proof (cases "pendingInit s")
  case None
  with assms show ?thesis by (simp add: init_render_def)
next
  case (Some new)
  from assms Some have deps: "initDeps s = Some (roundIndex s)"
    and inside: "roundIndex s < length (batches P)"
    and tags: "\<forall>i \<in> set new. round_tag (roundIndex s) (item_id i)"
    and quiet: "transitionTimeouts s = []"
    by (simp_all add: match_inv_def)
  from assms Some have fresh: "roundIndex s \<notin> set (completions s)"
    by (auto simp add: match_inv_def)
  from assms have log: "distinct (completions s)"
    "\<forall>c \<in> set (completions s). c \<le> roundIndex s"
    "\<forall>r < roundIndex s. r \<in> set (completions s)"
    by (simp_all add: match_inv_def)
  have eq: "init_render s =
      s\<lparr>items := new, matchesInRound := [],
        selectedLeft :=
          (case find (\<lambda>i. item_side i = Side_left) new of
             Some firstLeft \<Rightarrow> Some (item_id firstLeft) | None \<Rightarrow> None),
        selectedRight := None, pendingInit := None\<rparr>"
    using Some by (simp add: init_render_def)
  show ?thesis
    unfolding eq
    using deps inside tags quiet fresh log
    by (auto simp add: match_inv_def item_ids_def)
qed

text \<open>
  When the watcher gives its signal, the matched set is full, it is not empty, and all
  its ids carry the tag of the current round.
\<close>

lemma completion_signal_conditions:
  assumes "match_inv P s" and "completion_signal P s"
  shows "\<not> isFinishedM s"
    and "\<exists>batch. currentBatchM P s = Some batch \<and> length (matchesInRound s) = length batch"
    and "\<forall>m \<in> set (matchesInRound s). round_tag (roundIndex s) m"
    and "\<not> isTransitioningRef s"
    and "pendingInit s = None" and "initDeps s = Some (roundIndex s)"
    and "completion_watcher P s =
           s\<lparr>isTransitioningRef := True,
             completions := completions s @ [roundIndex s],
             transitionTimeouts := transitionTimeouts s @ [(roundIndex s, current_closure s)]\<rparr>"
proof -
  from assms(2) obtain batch where batch: "currentBatchM P s = Some batch"
    by (cases "currentBatchM P s") (auto simp add: completion_signal_def completion_watcher_def)
  from assms(2) batch show running: "\<not> isFinishedM s"
    by (auto simp add: completion_signal_def completion_watcher_def)
  from assms(2) batch running have full: "length (matchesInRound s) = length batch"
    by (auto simp add: completion_signal_def completion_watcher_def split: if_splits)
  with batch show "\<exists>batch. currentBatchM P s = Some batch
      \<and> length (matchesInRound s) = length batch" by blast
  from batch have "batch \<noteq> []" by (simp add: currentBatchM_Some)
  with full obtain m rest where m: "matchesInRound s = m # rest"
    by (cases "matchesInRound s") auto
  from assms(2) batch running full m have sample: "m = [] \<or> round_tag (roundIndex s) m"
    and lock: "\<not> isTransitioningRef s"
    by (auto simp add: completion_signal_def completion_watcher_def round_tag_def
        split: if_splits)
  from lock show "\<not> isTransitioningRef s" .
  from assms(1) m have "m \<in> set (item_ids s)"
    by (auto simp add: match_inv_def)
  with assms(1) obtain k where k: "round_tag k m"
    and kr: "\<not> (pendingInit s = None \<and> initDeps s = Some (roundIndex s)) \<longrightarrow> k < roundIndex s"
    unfolding match_inv_def by blast
  from k have "m \<noteq> []" by (rule round_tag_not_empty)
  with sample have "round_tag (roundIndex s) m" by simp
  with k have "k = roundIndex s" by (rule round_tag_unique)
  with kr show current: "pendingInit s = None" and deps: "initDeps s = Some (roundIndex s)"
    by auto
  from assms(1) current deps show "\<forall>m \<in> set (matchesInRound s). round_tag (roundIndex s) m"
    unfolding match_inv_def by auto
  from batch running full m sample lock \<open>m \<noteq> []\<close>
  show "completion_watcher P s =
           s\<lparr>isTransitioningRef := True,
             completions := completions s @ [roundIndex s],
             transitionTimeouts := transitionTimeouts s @ [(roundIndex s, current_closure s)]\<rparr>"
    by (simp add: completion_watcher_def round_tag_def)
qed

lemma completion_watcher_inv:
  assumes "match_inv P s"
  shows "match_inv P (completion_watcher P s)"
proof (cases "completion_signal P s")
  case False
  with assms show ?thesis by (simp add: completion_signal_def)
next
  case True
  note sig = completion_signal_conditions [OF assms True]
  from sig(2) have inside: "roundIndex s < length (batches P)"
    by (auto simp add: currentBatchM_Some)
  from assms sig(4) have quiet: "transitionTimeouts s = []"
    and fresh: "roundIndex s \<notin> set (completions s)"
    by (auto simp add: match_inv_def)
  have closure: "\<not> cl_isFinished (current_closure s)"
    using sig(1) by (simp add: current_closure_def)
  show ?thesis
    unfolding sig(7)
    using assms sig(5,6) inside quiet fresh closure
    by (auto simp add: match_inv_def item_ids_def)
qed

lemma transition_timeout_inv:
  assumes "match_inv P s"
  shows "match_inv P (transition_timeout P now s)"
proof (cases "transitionTimeouts s")
  case Nil
  with assms show ?thesis by (simp add: transition_timeout_def)
next
  case (Cons t rest)
  with assms obtain cl where t: "t = (roundIndex s, cl)" and rest: "rest = []"
    and open_cl: "\<not> cl_isFinished cl"
    and deps: "initDeps s = Some (roundIndex s)" and idle: "pendingInit s = None"
    and inside: "roundIndex s < length (batches P)"
    and recorded: "roundIndex s \<in> set (completions s)"
    by (auto simp add: match_inv_def)
  let ?s1 = "s\<lparr>transitionTimeouts := []\<rparr>"
  show ?thesis
  proof (cases "int (roundIndex s) < int (length (batches P)) - 1")
    case True
    then have eq: "transition_timeout P now s =
        s\<lparr>transitionTimeouts := [], roundIndex := roundIndex s + 1\<rparr>"
      using Cons t rest by (simp add: transition_timeout_def)
    from True have next_inside: "roundIndex s + 1 < length (batches P)" by simp
    have "\<forall>x \<in> set (item_ids s). round_tag (roundIndex s) x"
      using assms deps idle by (simp add: match_inv_def)
    then have tags: "\<forall>x \<in> set (item_ids s). \<exists>k < roundIndex s + 1. round_tag k x"
      by (auto intro: exI [of _ "roundIndex s"])
    from assms have log: "distinct (completions s)"
      "\<forall>c \<in> set (completions s). c \<le> roundIndex s"
      "\<forall>r < roundIndex s. r \<in> set (completions s)"
      "set (matchesInRound s) \<subseteq> set (item_ids s)"
      by (simp_all add: match_inv_def)
    have later: "\<forall>r < roundIndex s + 1. r \<in> set (completions s)"
      using log(3) recorded by (auto simp add: less_Suc_eq)
    have not_yet: "roundIndex s + 1 \<notin> set (completions s)"
      using log(2) by auto
    have bound: "\<forall>c \<in> set (completions s). c \<le> roundIndex s + 1"
      using log(2) by auto
    show ?thesis
      unfolding eq
      using next_inside tags log(1,4) later not_yet bound idle deps
      by (simp add: match_inv_def item_ids_def)
  next
    case False
    then have eq: "transition_timeout P now s = finishGame P now cl (Some (cl_score cl)) ?s1"
      using Cons t rest by (simp add: transition_timeout_def)
    have "match_inv P ?s1"
      using assms by (auto simp add: match_inv_def item_ids_def)
    then show ?thesis
      unfolding eq by (rule finishGame_inv)
  qed
qed

lemma match_step_inv: "match_inv P s \<Longrightarrow> match_inv P (match_step rnd P e s)"
proof (cases e)
  case Ev_timer_control
  assume "match_inv P s"
  then have "match_inv P (s\<lparr>timerControl := True\<rparr>)"
    by (simp add: match_inv_def item_ids_def)
  with Ev_timer_control show ?thesis by simp
next
  case Ev_second
  assume "match_inv P s"
  then have "match_inv P (s\<lparr>elapsedTimeM := elapsedTimeM s + 1\<rparr>)"
    by (simp add: match_inv_def item_ids_def)
  with Ev_second \<open>match_inv P s\<close> show ?thesis by simp
qed (simp_all add: init_effect_inv init_render_inv game_end_effect_inv enforcer_effect_inv
      completion_watcher_inv feedback_reset_inv handleItemClick_inv transition_timeout_inv
      handleTimeUpM_inv)

lemma match_run_inv: "match_inv P s \<Longrightarrow> match_inv P (match_run rnd P es s)"
  by (induction es arbitrary: s) (simp_all add: match_step_inv)

section \<open>Matching round engine: round completion\<close>

lemma completion_watcher_locked:
  "isTransitioningRef s \<Longrightarrow> completion_watcher P s = s"
  by (simp add: completion_watcher_def split: option.split list.split)

lemma completion_watcher_stale:
  assumes "match_inv P s" and "matchesInRound s = m # rest"
    and "\<not> round_tag (roundIndex s) m"
  shows "completion_watcher P s = s"
proof -
  from assms(1,2) have "m \<in> set (item_ids s)"
    by (auto simp add: match_inv_def)
  with assms(1) obtain k where "round_tag k m"
    unfolding match_inv_def by blast
  then have "m \<noteq> []" by (rule round_tag_not_empty)
  with assms(2,3) show ?thesis
    by (simp add: completion_watcher_def round_tag_def split: option.split)
qed

lemma count_list_distinct:
  "distinct xs \<Longrightarrow> count_list xs x = (if x \<in> set xs then 1 else 0)"
  by (induction xs) auto

section \<open>Matching round engine: saving the session\<close>

lemma save_inv_frame:
  assumes "save_inv uuid st s"
    and "sessionLogRef s' = sessionLogRef s" and "hasSaved s' = hasSaved s"
    and "localStorage s' = localStorage s" and "isFinishedM s' = isFinishedM s"
  shows "save_inv uuid st s'"
  using assms(1) unfolding save_inv_def assms(2-5) .

lemma finishGame_guarded: "hasSaved s \<Longrightarrow> finishGame P now cl f s = s"
  by (simp add: finishGame_def)

text \<open>The first call of \<open>finishGame\<close> that passes the guard.\<close>

lemma finishGame_first:
  assumes "\<not> hasSaved s" and "\<not> cl_isFinished cl"
  shows "hasSaved (finishGame P now cl f s)"
    and "isFinishedM (finishGame P now cl f s)"
    and "session_id (sessionLogRef (finishGame P now cl f s)) = session_id (sessionLogRef s)"
    and "getAllSessions (localStorage s) = JArray history \<Longrightarrow>
         getAllSessions (localStorage (finishGame P now cl f s)) =
           JArray (history @ [sessionLogRef (finishGame P now cl f s)])"
    and "\<forall>history. getAllSessions (localStorage s) \<noteq> JArray history \<Longrightarrow>
         localStorage (finishGame P now cl f s) = localStorage s"
proof -
  let ?log = "(sessionLogRef s)
                \<lparr>questions := map mock_question (m_words P),
                 score := (case f of Some x \<Rightarrow> x | None \<Rightarrow> cl_score cl),
                 mistakes := Some (cl_incorrectCount cl),
                 timeTaken := Some (cl_elapsedTime cl),
                 totalWords := total_words P,
                 timestamp := now\<rparr>"
  let ?s1 = "s\<lparr>isFinishedM := True,
               timerM := (if timerControl s then stopTimer (timerM s) else timerM s),
               hasSaved := True,
               sessionLogRef := ?log\<rparr>"
  have eq: "finishGame P now cl f s =
      (case saveSession ?log (localStorage s) of
         Inr st \<Rightarrow> ?s1\<lparr>localStorage := st\<rparr>
       | Inl e \<Rightarrow> ?s1\<lparr>uncaught := uncaught s @ [e]\<rparr>)"
    using assms by (simp add: finishGame_def Let_def split: sum.split)
  show "hasSaved (finishGame P now cl f s)"
    unfolding eq by (simp split: sum.split)
  show "isFinishedM (finishGame P now cl f s)"
    unfolding eq by (simp split: sum.split)
  show "session_id (sessionLogRef (finishGame P now cl f s)) = session_id (sessionLogRef s)"
    unfolding eq by (simp split: sum.split)
  show "getAllSessions (localStorage (finishGame P now cl f s)) =
           JArray (history @ [sessionLogRef (finishGame P now cl f s)])"
    if "getAllSessions (localStorage s) = JArray history"
  proof -
    from saveSession_appends [OF that, of ?log] obtain st' where
      "saveSession ?log (localStorage s) = Inr st'"
      "getAllSessions st' = JArray (history @ [?log])"
      by blast
    then show ?thesis unfolding eq by simp
  qed
  show "localStorage (finishGame P now cl f s) = localStorage s"
    if "\<forall>history. getAllSessions (localStorage s) \<noteq> JArray history"
  proof -
    from that have "saveSession ?log (localStorage s) = Inl TypeError"
      by (cases "getAllSessions (localStorage s)") (simp_all add: saveSession_def)
    then show ?thesis unfolding eq by simp
  qed
qed

lemma finishGame_save_inv:
  assumes "save_inv uuid st s"
  shows "save_inv uuid st (finishGame P now cl f s)"
proof (cases "cl_isFinished cl \<or> hasSaved s")
  case True
  with assms show ?thesis by (simp add: finishGame_def)
next
  case False
  then have fresh: "\<not> hasSaved s" and open_cl: "\<not> cl_isFinished cl" by simp_all
  note first = finishGame_first [OF fresh open_cl, where P = P and now = now and f = f]
  from assms fresh have st: "localStorage s = st" and uuid: "session_id (sessionLogRef s) = uuid"
    by (simp_all add: save_inv_def)
  show ?thesis
  proof (cases "\<exists>history. getAllSessions st = JArray history")
    case True
    then obtain history where h: "getAllSessions st = JArray history" ..
    with first(4) [of history] st have
      "getAllSessions (localStorage (finishGame P now cl f s)) =
         JArray (history @ [sessionLogRef (finishGame P now cl f s)])"
      by simp
    with h first(1,2,3) uuid show ?thesis
      by (simp add: save_inv_def)
  next
    case False
    with first(5) st have "localStorage (finishGame P now cl f s) = st"
      by simp
    with False first(1,2,3) uuid show ?thesis
      by (cases "getAllSessions st") (simp_all add: save_inv_def)
  qed
qed

lemma checkMatch_save:
  "sessionLogRef (checkMatch P l r s) = sessionLogRef s"
  "hasSaved (checkMatch P l r s) = hasSaved s"
  "localStorage (checkMatch P l r s) = localStorage s"
  "isFinishedM (checkMatch P l r s) = isFinishedM s"
  by (simp_all add: checkMatch_def Let_def split: option.split)

lemma handleItemClick_save:
  "sessionLogRef (handleItemClick P n s) = sessionLogRef s"
  "hasSaved (handleItemClick P n s) = hasSaved s"
  "localStorage (handleItemClick P n s) = localStorage s"
  "isFinishedM (handleItemClick P n s) = isFinishedM s"
  by (simp_all add: handleItemClick_def Let_def checkMatch_save split: option.split)

lemma match_step_save_inv:
  assumes "save_inv uuid st s"
  shows "save_inv uuid st (match_step rnd P e s)"
proof (cases e)
  case Ev_init_effect
  have "save_inv uuid st (init_effect rnd P s)"
    using assms by (rule save_inv_frame) (simp_all add: init_effect_def split: option.split)
  with Ev_init_effect show ?thesis by simp
next
  case Ev_init_render
  have "save_inv uuid st (init_render s)"
    using assms by (rule save_inv_frame) (simp_all add: init_render_def split: option.split)
  with Ev_init_render show ?thesis by simp
next
  case (Ev_game_end t)
  then show ?thesis
    using assms by (simp add: game_end_effect_def finishGame_save_inv)
next
  case Ev_enforcer
  have "save_inv uuid st (enforcer_effect P s)"
    using assms by (rule save_inv_frame) (simp_all add: enforcer_effect_def split: option.split)
  with Ev_enforcer show ?thesis by simp
next
  case Ev_watcher
  have "save_inv uuid st (completion_watcher P s)"
    using assms
    by (rule save_inv_frame)
       (simp_all add: completion_watcher_def split: option.split list.split)
  with Ev_watcher show ?thesis by simp
next
  case Ev_timer_control
  have "save_inv uuid st (s\<lparr>timerControl := True\<rparr>)"
    using assms by (rule save_inv_frame) simp_all
  with Ev_timer_control show ?thesis by simp
next
  case Ev_feedback_reset
  have "save_inv uuid st (feedback_reset s)"
    using assms by (rule save_inv_frame) (simp_all add: feedback_reset_def)
  with Ev_feedback_reset assms show ?thesis by simp
next
  case (Ev_click n)
  have "save_inv uuid st (handleItemClick P n s)"
    using assms by (rule save_inv_frame) (simp_all add: handleItemClick_save)
  with Ev_click assms show ?thesis by simp
next
  case (Ev_transition_timeout t)
  have "save_inv uuid st (transition_timeout P t s)"
  proof (cases "transitionTimeouts s")
    case Nil
    with assms show ?thesis by (simp add: transition_timeout_def)
  next
    case (Cons p rest)
    obtain r cl where p: "p = (r, cl)" by (cases p)
    have s1: "save_inv uuid st (s\<lparr>transitionTimeouts := rest\<rparr>)"
      using assms by (rule save_inv_frame) simp_all
    have s2: "save_inv uuid st (s\<lparr>transitionTimeouts := rest, roundIndex := Suc (roundIndex s)\<rparr>)"
      using assms by (rule save_inv_frame) simp_all
    from Cons p s1 s2 show ?thesis
      by (simp add: transition_timeout_def Let_def finishGame_save_inv)
  qed
  with Ev_transition_timeout assms show ?thesis by simp
next
  case (Ev_time_up t)
  then show ?thesis
    using assms by (simp add: handleTimeUpM_def finishGame_save_inv)
next
  case Ev_second
  have "save_inv uuid st (s\<lparr>elapsedTimeM := elapsedTimeM s + 1\<rparr>)"
    using assms by (rule save_inv_frame) simp_all
  with Ev_second assms show ?thesis by simp
qed

lemma match_run_save_inv:
  "save_inv uuid st s \<Longrightarrow> save_inv uuid st (match_run rnd P es s)"
  by (induction es arbitrary: s) (simp_all add: match_step_save_inv)

lemma match_mount_save_inv: "save_inv uuid st (match_mount P uuid now st)"
  by (simp add: save_inv_def match_mount_def)

text \<open>
  Claim C3, amended. In matching mode persisting goes through \<open>finishGame\<close>, which is
  latched by \<open>hasSaved\<close>. For a game mounted on a storage whose history is a list, in
  every state the game reaches: the session log keeps its id; before the first save the
  storage is untouched; after it the stored history is the one of the mount with the
  session log appended once, whatever further persist attempts were made on the way;
  any further call of \<open>finishGame\<close>, with any closure, changes nothing; and the first
  call that passes its guard appends the record.
\<close>

theorem finishGame_persists_once:
  assumes "s = match_run rnd P es (match_mount P uuid now st)"
    and "getAllSessions st = JArray history"
  shows "session_id (sessionLogRef s) = uuid
       \<and> (\<not> hasSaved s \<longrightarrow> localStorage s = st)
       \<and> (hasSaved s \<longrightarrow>
            getAllSessions (localStorage s) = JArray (history @ [sessionLogRef s])
          \<and> finishGame P now' cl f s = s)
       \<and> (\<not> hasSaved s \<and> \<not> cl_isFinished cl \<longrightarrow>
            hasSaved (finishGame P now' cl f s)
          \<and> getAllSessions (localStorage (finishGame P now' cl f s)) =
              JArray (history @ [sessionLogRef (finishGame P now' cl f s)])
          \<and> session_id (sessionLogRef (finishGame P now' cl f s)) = uuid)"
proof -
  have inv: "save_inv uuid st s"
    unfolding assms(1) by (rule match_run_save_inv) (rule match_mount_save_inv)
  have id: "session_id (sessionLogRef s) = uuid"
    using inv by (simp add: save_inv_def)
  have before: "localStorage s = st" if "\<not> hasSaved s"
    using inv that by (simp add: save_inv_def)
  have after: "getAllSessions (localStorage s) = JArray (history @ [sessionLogRef s])"
    if "hasSaved s"
    using inv that assms(2) by (simp add: save_inv_def)
  have again: "finishGame P now' cl f s = s" if "hasSaved s"
    using that by (rule finishGame_guarded)
  have first: "hasSaved (finishGame P now' cl f s)
          \<and> getAllSessions (localStorage (finishGame P now' cl f s)) =
              JArray (history @ [sessionLogRef (finishGame P now' cl f s)])
          \<and> session_id (sessionLogRef (finishGame P now' cl f s)) = uuid"
    if "\<not> hasSaved s \<and> \<not> cl_isFinished cl"
  proof -
    from that have a: "\<not> hasSaved s" and b: "\<not> cl_isFinished cl" by simp_all
    from before [OF a] assms(2) have "getAllSessions (localStorage s) = JArray history"
      by simp
    with finishGame_first [OF a b, where P = P and now = now' and f = f] id show ?thesis by simp
  qed
  from id before after again first show ?thesis by blast
qed


theorem finishGame_persists_once_witness:
  "getAllSessions empty_storage = JArray []
   \<and> hasSaved (match_run no_random example_matching_props [Ev_time_up 5]
        (match_mount example_matching_props ''s1'' 0 empty_storage))
   \<and> getAllSessions (localStorage (match_run no_random example_matching_props [Ev_time_up 5]
        (match_mount example_matching_props ''s1'' 0 empty_storage)))
      = JArray [sessionLogRef (match_run no_random example_matching_props [Ev_time_up 5]
        (match_mount example_matching_props ''s1'' 0 empty_storage))]
   \<and> finishGame example_matching_props 9
        (current_closure (match_mount example_matching_props ''s1'' 0 empty_storage)) None
        (match_run no_random example_matching_props [Ev_time_up 5]
           (match_mount example_matching_props ''s1'' 0 empty_storage))
      = match_run no_random example_matching_props [Ev_time_up 5]
           (match_mount example_matching_props ''s1'' 0 empty_storage)"
proof -
  let ?m = "match_mount example_matching_props ''s1'' 0 empty_storage"
  let ?s = "match_run no_random example_matching_props [Ev_time_up 5] ?m"
  have list: "getAllSessions empty_storage = JArray []"
    by (simp add: getAllSessions_def empty_storage_def)
  have saved: "hasSaved ?s"
    by (simp add: handleTimeUpM_def finishGame_def match_mount_def current_closure_def Let_def
        split: sum.split)
  show ?thesis
    using list saved
      finishGame_persists_once
        [where s = ?s and rnd = no_random and P = example_matching_props
           and es = "[Ev_time_up 5]" and uuid = "''s1''" and now = 0 and st = empty_storage
           and history = "[]" and now' = 9 and cl = "current_closure ?m" and f = None]
    by simp
qed

section \<open>Matching round engine: the transition lock\<close>

lemma lock_inv_frame:
  assumes "lock_inv P s"
    and "roundIndex s' = roundIndex s"
    and "isTransitioningRef s' = isTransitioningRef s"
    and "initDeps s' = initDeps s" and "pendingInit s' = pendingInit s"
    and "completions s' = completions s"
  shows "lock_inv P s'"
  using assms(1) unfolding lock_inv_def assms(2-6) .

lemma match_mount_lock_inv: "lock_inv P (match_mount P uuid now st)"
  by (simp add: lock_inv_def match_mount_def)

lemma init_effect_lock_inv:
  assumes "lock_inv P s"
  shows "lock_inv P (init_effect rnd P s)"
proof (cases "initDeps s = Some (roundIndex s) \<or> pendingInit s \<noteq> None")
  case True
  with assms show ?thesis by (simp add: init_effect_def)
next
  case False
  show ?thesis
  proof (cases "currentBatchM P s")
    case None
    then have "length (batches P) \<le> roundIndex s" by (rule currentBatchM_None)
    with False None show ?thesis
      by (simp add: init_effect_def lock_inv_def)
  next
    case (Some batch)
    with False show ?thesis
      by (simp add: init_effect_def lock_inv_def)
  qed
qed

lemma init_render_lock_inv:
  assumes "match_inv P s" and "lock_inv P s"
  shows "lock_inv P (init_render s)"
proof (cases "pendingInit s")
  case None
  with assms(2) show ?thesis by (simp add: init_render_def)
next
  case (Some new)
  with assms(1) have "\<not> isTransitioningRef s"
    by (simp add: match_inv_def)
  with Some show ?thesis
    by (simp add: init_render_def lock_inv_def)
qed

lemma completion_watcher_lock_inv:
  assumes "match_inv P s" and "lock_inv P s"
  shows "lock_inv P (completion_watcher P s)"
proof (cases "completion_signal P s")
  case False
  with assms(2) show ?thesis by (simp add: completion_signal_def)
next
  case True
  show ?thesis
    unfolding completion_signal_conditions(7) [OF assms(1) True]
    by (simp add: lock_inv_def)
qed

lemma finishGame_lock_inv: "lock_inv P s \<Longrightarrow> lock_inv P (finishGame P now cl f s)"
  by (erule lock_inv_frame) (simp_all add: finishGame_control)

lemma transition_timeout_lock_inv:
  assumes "match_inv P s" and "lock_inv P s"
  shows "lock_inv P (transition_timeout P now s)"
proof (cases "transitionTimeouts s")
  case Nil
  with assms(2) show ?thesis by (simp add: transition_timeout_def)
next
  case (Cons t rest)
  with assms(1) obtain cl where t: "t = (roundIndex s, cl)"
    and deps: "initDeps s = Some (roundIndex s)"
    by (auto simp add: match_inv_def)
  show ?thesis
  proof (cases "int (roundIndex s) < int (length (batches P)) - 1")
    case True
    with Cons t deps show ?thesis
      by (simp add: transition_timeout_def lock_inv_def)
  next
    case False
    have "lock_inv P (s\<lparr>transitionTimeouts := rest\<rparr>)"
      using assms(2) by (rule lock_inv_frame) simp_all
    then have "lock_inv P (finishGame P now cl (Some (cl_score cl)) (s\<lparr>transitionTimeouts := rest\<rparr>))"
      by (rule finishGame_lock_inv)
    with False Cons t show ?thesis
      by (simp add: transition_timeout_def)
  qed
qed

lemma handleItemClick_lock_inv: "lock_inv P s \<Longrightarrow> lock_inv P (handleItemClick P n s)"
  by (simp add: handleItemClick_def Let_def lock_inv_def checkMatch_control split: option.split)

lemma match_step_lock_inv:
  assumes "match_inv P s" and "lock_inv P s"
  shows "lock_inv P (match_step rnd P e s)"
proof (cases e)
  case Ev_init_effect
  with assms(2) show ?thesis by (simp add: init_effect_lock_inv)
next
  case Ev_init_render
  with assms show ?thesis by (simp add: init_render_lock_inv)
next
  case (Ev_game_end now)
  with assms(2) show ?thesis by (simp add: game_end_effect_def finishGame_lock_inv)
next
  case Ev_enforcer
  with assms(2) show ?thesis
    by (simp add: enforcer_effect_def lock_inv_def split: option.split)
next
  case Ev_watcher
  with assms show ?thesis by (simp add: completion_watcher_lock_inv)
next
  case Ev_timer_control
  with assms(2) show ?thesis by (simp add: lock_inv_def)
next
  case Ev_feedback_reset
  with assms(2) show ?thesis by (simp add: feedback_reset_def lock_inv_def)
next
  case (Ev_click n)
  with assms(2) show ?thesis by (simp add: handleItemClick_lock_inv)
next
  case (Ev_transition_timeout now)
  with assms show ?thesis by (simp add: transition_timeout_lock_inv)
next
  case (Ev_time_up now)
  with assms(2) show ?thesis by (simp add: handleTimeUpM_def finishGame_lock_inv)
next
  case Ev_second
  with assms(2) show ?thesis by (simp add: lock_inv_def)
qed

lemma match_run_lock_inv:
  "match_inv P s \<Longrightarrow> lock_inv P s \<Longrightarrow> lock_inv P (match_run rnd P es s)"
  by (induction es arbitrary: s) (simp_all add: match_step_inv match_step_lock_inv)

text \<open>
  The watcher fires: with the game not finished, the matched set as large as the batch
  and made of ids of the current round, and the round not yet recorded as completed (or
  the lock open), the run of the watcher closes the lock, records the round and leaves
  one pending timeout.
\<close>

lemma completion_watcher_fires:
  assumes inv: "match_inv P s" and lock: "lock_inv P s"
    and running: "\<not> isFinishedM s"
    and batch: "currentBatchM P s = Some batch"
    and full: "length (matchesInRound s) = length batch"
    and tags: "\<forall>m \<in> set (matchesInRound s). round_tag (roundIndex s) m"
    and fresh: "\<not> isTransitioningRef s \<or> roundIndex s \<notin> set (completions s)"
  shows "completion_watcher P s =
           s\<lparr>isTransitioningRef := True,
             completions := completions s @ [roundIndex s],
             transitionTimeouts := [(roundIndex s, current_closure s)]\<rparr>"
    and "completion_signal P s"
proof -
  from batch have inside: "roundIndex s < length (batches P)" and "batch \<noteq> []"
    by (simp_all add: currentBatchM_Some)
  with full obtain m rest where m: "matchesInRound s = m # rest"
    by (cases "matchesInRound s") auto
  with tags have tag: "round_tag (roundIndex s) m" by simp
  then have "m \<noteq> []" by (rule round_tag_not_empty)
  from inv m have "m \<in> set (item_ids s)"
    by (auto simp add: match_inv_def)
  have rendered: "pendingInit s = None \<and> initDeps s = Some (roundIndex s)"
  proof (rule ccontr)
    assume "\<not> (pendingInit s = None \<and> initDeps s = Some (roundIndex s))"
    with inv \<open>m \<in> set (item_ids s)\<close> obtain k where "k < roundIndex s" and "round_tag k m"
      unfolding match_inv_def by blast
    with tag show False
      using round_tag_unique [of k m "roundIndex s"] by simp
  qed
  have open_lock: "\<not> isTransitioningRef s"
  proof
    assume closed: "isTransitioningRef s"
    with lock rendered inside have "roundIndex s \<in> set (completions s)"
      by (simp add: lock_inv_def)
    with fresh closed show False by simp
  qed
  with inv have quiet: "transitionTimeouts s = []"
    by (auto simp add: match_inv_def)
  from running batch full m tag \<open>m \<noteq> []\<close> open_lock quiet
  show eq: "completion_watcher P s =
           s\<lparr>isTransitioningRef := True,
             completions := completions s @ [roundIndex s],
             transitionTimeouts := [(roundIndex s, current_closure s)]\<rparr>"
    by (simp add: completion_watcher_def round_tag_def)
  have "isTransitioningRef (completion_watcher P s)"
    unfolding eq by simp
  with open_lock show "completion_signal P s"
    unfolding completion_signal_def by auto
qed

section \<open>Matching round engine: round completion, the claim\<close>

text \<open>What the pending transition timeout does when it fires.\<close>

lemma transition_timeout_outcome:
  assumes "match_inv P s" and "save_inv uuid st s"
    and "transitionTimeouts s = (r, cl) # rest"
  shows "r = roundIndex s" and "rest = []" and "roundIndex s \<in> set (completions s)"
    and "int r < int (length (batches P)) - 1 \<Longrightarrow>
           roundIndex (transition_timeout P t s) = roundIndex s + 1
         \<and> isFinishedM (transition_timeout P t s) = isFinishedM s"
    and "\<not> int r < int (length (batches P)) - 1 \<Longrightarrow>
           roundIndex (transition_timeout P t s) = roundIndex s
         \<and> isFinishedM (transition_timeout P t s) \<and> hasSaved (transition_timeout P t s)"
proof -
  from assms(1,3) show r: "r = roundIndex s" and rest: "rest = []"
    and "roundIndex s \<in> set (completions s)"
    by (auto simp add: match_inv_def)
  from assms(1,3) have open_cl: "\<not> cl_isFinished cl"
    by (auto simp add: match_inv_def)
  show "roundIndex (transition_timeout P t s) = roundIndex s + 1
         \<and> isFinishedM (transition_timeout P t s) = isFinishedM s"
    if "int r < int (length (batches P)) - 1"
    using that assms(3) by (simp add: transition_timeout_def)
  show "roundIndex (transition_timeout P t s) = roundIndex s
         \<and> isFinishedM (transition_timeout P t s) \<and> hasSaved (transition_timeout P t s)"
    if last: "\<not> int r < int (length (batches P)) - 1"
  proof -
    let ?s1 = "s\<lparr>transitionTimeouts := rest\<rparr>"
    have eq: "transition_timeout P t s = finishGame P t cl (Some (cl_score cl)) ?s1"
      using last assms(3) by (simp add: transition_timeout_def)
    have inv1: "save_inv uuid st ?s1"
      using assms(2) by (rule save_inv_frame) simp_all
    have "save_inv uuid st (finishGame P t cl (Some (cl_score cl)) ?s1)"
      using inv1 by (rule finishGame_save_inv)
    moreover have "hasSaved (finishGame P t cl (Some (cl_score cl)) ?s1)"
    proof (cases "hasSaved ?s1")
      case True
      then show ?thesis by (simp add: finishGame_guarded)
    next
      case False
      then show ?thesis using open_cl by (rule finishGame_first(1))
    qed
    ultimately show ?thesis
      unfolding eq by (simp add: save_inv_def finishGame_control)
  qed
qed

text \<open>
  Claim C4. In every state \<open>s\<close> that a mounted matching game reaches by any sequence of
  effects, clicks, timeouts and timer events:
  \<^item> if the watcher gives the completion signal, the game is not finished, the matched set
    has the size of the current batch, every matched id ends with the tag of the current
    round, the current round has not been completed before, the signal records the round
    and a second run of the watcher gives no signal;
  \<^item> conversely the watcher does give the signal whenever the game is not finished, the
    matched set has the size of the current batch, every matched id ends with the tag of
    the current round, and the round has not been completed before (or the lock is open):
    its run then closes the lock, records the round and leaves exactly one pending
    timeout, set for this round;
  \<^item> if the first matched id does not end with the tag of the current round, the watcher
    does nothing at all;
  \<^item> each round before the current one has been completed exactly once, the current one
    at most once, no later round, and at most one transition timeout is pending;
  \<^item> a pending transition timeout belongs to the current, completed round; when it fires
    the game advances to the next round, or, from the last round, is finished and saved.
\<close>

theorem round_completion_once:
  assumes "s = match_run rnd P es (match_mount P uuid now st)"
  shows "(completion_signal P s \<longrightarrow>
            \<not> isFinishedM s
          \<and> (\<exists>batch. currentBatchM P s = Some batch
                \<and> length (matchesInRound s) = length batch)
          \<and> (\<forall>m \<in> set (matchesInRound s). suffix (''_'' @ string_of_nat (roundIndex s)) m)
          \<and> roundIndex s \<notin> set (completions s)
          \<and> completions (completion_watcher P s) = completions s @ [roundIndex s]
          \<and> \<not> completion_signal P (completion_watcher P s))
       \<and> (\<not> isFinishedM s
          \<and> (\<exists>batch. currentBatchM P s = Some batch
                \<and> length (matchesInRound s) = length batch)
          \<and> (\<forall>m \<in> set (matchesInRound s). suffix (''_'' @ string_of_nat (roundIndex s)) m)
          \<and> (\<not> isTransitioningRef s \<or> roundIndex s \<notin> set (completions s)) \<longrightarrow>
            completion_signal P s
          \<and> completion_watcher P s =
              s\<lparr>isTransitioningRef := True,
                completions := completions s @ [roundIndex s],
                transitionTimeouts := [(roundIndex s, current_closure s)]\<rparr>)
       \<and> ((\<exists>m rest. matchesInRound s = m # rest
              \<and> \<not> suffix (''_'' @ string_of_nat (roundIndex s)) m) \<longrightarrow>
            completion_watcher P s = s)
       \<and> (\<forall>r < roundIndex s. count_list (completions s) r = 1)
       \<and> count_list (completions s) (roundIndex s) \<le> 1
       \<and> (\<forall>r. roundIndex s < r \<longrightarrow> count_list (completions s) r = 0)
       \<and> length (transitionTimeouts s) \<le> 1
       \<and> (\<forall>r cl rest. transitionTimeouts s = (r, cl) # rest \<longrightarrow>
              r = roundIndex s \<and> roundIndex s \<in> set (completions s)
            \<and> (int r < int (length (batches P)) - 1 \<longrightarrow>
                  roundIndex (transition_timeout P t s) = roundIndex s + 1
                \<and> isFinishedM (transition_timeout P t s) = isFinishedM s)
            \<and> (\<not> int r < int (length (batches P)) - 1 \<longrightarrow>
                  roundIndex (transition_timeout P t s) = roundIndex s
                \<and> isFinishedM (transition_timeout P t s)
                \<and> hasSaved (transition_timeout P t s)))"
proof -
  have inv: "match_inv P s"
    unfolding assms by (rule match_run_inv) (rule match_mount_inv)
  have signal: "\<not> isFinishedM s
          \<and> (\<exists>batch. currentBatchM P s = Some batch
                \<and> length (matchesInRound s) = length batch)
          \<and> (\<forall>m \<in> set (matchesInRound s). suffix (''_'' @ string_of_nat (roundIndex s)) m)
          \<and> roundIndex s \<notin> set (completions s)
          \<and> completions (completion_watcher P s) = completions s @ [roundIndex s]
          \<and> \<not> completion_signal P (completion_watcher P s)"
    if sig: "completion_signal P s"
  proof -
    note c = completion_signal_conditions [OF inv sig]
    have "roundIndex s \<notin> set (completions s)"
      using inv c(4) by (auto simp add: match_inv_def)
    moreover have "completions (completion_watcher P s) = completions s @ [roundIndex s]"
      by (simp add: c(7))
    moreover have "isTransitioningRef (completion_watcher P s)"
      by (simp add: c(7))
    then have "\<not> completion_signal P (completion_watcher P s)"
      by (simp add: completion_signal_def completion_watcher_locked)
    moreover have "\<forall>m \<in> set (matchesInRound s). suffix (''_'' @ string_of_nat (roundIndex s)) m"
      using c(3) by (simp add: round_tag_def)
    ultimately show ?thesis using c(1,2) by blast
  qed
  have lock: "lock_inv P s"
    unfolding assms
    by (rule match_run_lock_inv) (rule match_mount_inv, rule match_mount_lock_inv)
  have fires: "completion_signal P s
          \<and> completion_watcher P s =
              s\<lparr>isTransitioningRef := True,
                completions := completions s @ [roundIndex s],
                transitionTimeouts := [(roundIndex s, current_closure s)]\<rparr>"
    if h: "\<not> isFinishedM s
          \<and> (\<exists>batch. currentBatchM P s = Some batch
                \<and> length (matchesInRound s) = length batch)
          \<and> (\<forall>m \<in> set (matchesInRound s). suffix (''_'' @ string_of_nat (roundIndex s)) m)
          \<and> (\<not> isTransitioningRef s \<or> roundIndex s \<notin> set (completions s))"
  proof -
    from h obtain batch where batch: "currentBatchM P s = Some batch"
      and full: "length (matchesInRound s) = length batch"
      by blast
    from h have tags: "\<forall>m \<in> set (matchesInRound s). round_tag (roundIndex s) m"
      by (simp add: round_tag_def)
    from h have running: "\<not> isFinishedM s"
      and fresh: "\<not> isTransitioningRef s \<or> roundIndex s \<notin> set (completions s)"
      by simp_all
    from completion_watcher_fires [OF inv lock running batch full tags fresh]
    show ?thesis by simp
  qed
  have stale: "completion_watcher P s = s"
    if "\<exists>m rest. matchesInRound s = m # rest
          \<and> \<not> suffix (''_'' @ string_of_nat (roundIndex s)) m"
    using that completion_watcher_stale [OF inv] by (auto simp add: round_tag_def)
  from inv have log: "distinct (completions s)"
    "\<forall>c \<in> set (completions s). c \<le> roundIndex s"
    "\<forall>r < roundIndex s. r \<in> set (completions s)"
    by (simp_all add: match_inv_def)
  have before: "\<forall>r < roundIndex s. count_list (completions s) r = 1"
    using log(1,3) by (simp add: count_list_distinct)
  have current: "count_list (completions s) (roundIndex s) \<le> 1"
    using log(1) by (simp add: count_list_distinct)
  have after: "\<forall>r. roundIndex s < r \<longrightarrow> count_list (completions s) r = 0"
    using log(1,2) by (auto simp add: count_list_distinct)
  have pending: "length (transitionTimeouts s) \<le> 1"
    using inv by (auto simp add: match_inv_def)
  have saving: "save_inv uuid st s"
    unfolding assms by (rule match_run_save_inv) (rule match_mount_save_inv)
  have timeout: "\<forall>r cl rest. transitionTimeouts s = (r, cl) # rest \<longrightarrow>
              r = roundIndex s \<and> roundIndex s \<in> set (completions s)
            \<and> (int r < int (length (batches P)) - 1 \<longrightarrow>
                  roundIndex (transition_timeout P t s) = roundIndex s + 1
                \<and> isFinishedM (transition_timeout P t s) = isFinishedM s)
            \<and> (\<not> int r < int (length (batches P)) - 1 \<longrightarrow>
                  roundIndex (transition_timeout P t s) = roundIndex s
                \<and> isFinishedM (transition_timeout P t s)
                \<and> hasSaved (transition_timeout P t s))"
    using transition_timeout_outcome [OF inv saving] by blast
  from signal fires stale before current after pending timeout show ?thesis by blast
qed

lemma string_of_nat_0: "string_of_nat 0 = ''0''"
  by (simp add: string_of_nat.simps digit_char_def)

lemma example_batches: "batches example_matching_props = [[word_dom], [word_kot]]"
  by (simp add: batches_def batch_size_def example_matching_props_def example_config_def
      upt_rec)

lemma example_props:
  "m_dictionary example_matching_props = None"
  "optionsCount (m_config example_matching_props) = 4"
  "timerMode (m_config example_matching_props) = TM_none"
  by (simp_all add: example_matching_props_def example_config_def)

lemma example_round_0:
  "match_run no_random example_matching_props [Ev_init_effect, Ev_init_render]
     (match_mount example_matching_props ''s1'' 0 empty_storage)
   = (match_mount example_matching_props ''s1'' 0 empty_storage)
       \<lparr>items := [left_item 0 (word_dom, 0), right_item 0 (word_dom, 0)],
        selectedLeft := Some ''L_1_0_0'',
        initDeps := Some 0\<rparr>"
  by (simp add: init_effect_def init_render_def currentBatchM_def example_batches
      round_items_def right_source_def shuffleArray_def match_mount_def left_item_def
      right_item_def string_of_nat_0 word_dom_def example_props Let_def)


lemma example_round_0_matched:
  "match_run no_random example_matching_props [Ev_init_effect, Ev_init_render, Ev_click 1]
     (match_mount example_matching_props ''s1'' 0 empty_storage)
   = (match_mount example_matching_props ''s1'' 0 empty_storage)
       \<lparr>items := [(left_item 0 (word_dom, 0))\<lparr>item_state := St_matched\<rparr>,
                  (right_item 0 (word_dom, 0))\<lparr>item_state := St_matched\<rparr>],
        matchesInRound := [''L_1_0_0''],
        scoreM := 1,
        initDeps := Some 0\<rparr>"
proof -
  have "match_run no_random example_matching_props [Ev_init_effect, Ev_init_render, Ev_click 1]
     (match_mount example_matching_props ''s1'' 0 empty_storage)
     = match_step no_random example_matching_props (Ev_click 1)
        (match_run no_random example_matching_props [Ev_init_effect, Ev_init_render]
          (match_mount example_matching_props ''s1'' 0 empty_storage))"
    by simp
  also have "\<dots> = (match_mount example_matching_props ''s1'' 0 empty_storage)
       \<lparr>items := [(left_item 0 (word_dom, 0))\<lparr>item_state := St_matched\<rparr>,
                  (right_item 0 (word_dom, 0))\<lparr>item_state := St_matched\<rparr>],
        matchesInRound := [''L_1_0_0''],
        scoreM := 1,
        initDeps := Some 0\<rparr>"
    unfolding example_round_0
    by (simp add: handleItemClick_def checkMatch_def match_mount_def left_item_def
        right_item_def string_of_nat_0 word_dom_def set_add_def example_props Let_def)
  finally show ?thesis .
qed

lemma string_of_nat_1: "string_of_nat (Suc 0) = ''1''"
  by (simp add: string_of_nat.simps digit_char_def)

lemma example_round_0_completed:
  "match_run no_random example_matching_props
     [Ev_init_effect, Ev_init_render, Ev_click 1, Ev_watcher, Ev_transition_timeout 5]
     (match_mount example_matching_props ''s1'' 0 empty_storage)
   = (match_mount example_matching_props ''s1'' 0 empty_storage)
       \<lparr>roundIndex := 1,
        items := [(left_item 0 (word_dom, 0))\<lparr>item_state := St_matched\<rparr>,
                  (right_item 0 (word_dom, 0))\<lparr>item_state := St_matched\<rparr>],
        matchesInRound := [''L_1_0_0''],
        scoreM := 1,
        isTransitioningRef := True,
        initDeps := Some 0,
        completions := [0]\<rparr>"
proof -
  let ?P = example_matching_props
  let ?s0 = "match_run no_random ?P [Ev_init_effect, Ev_init_render, Ev_click 1]
     (match_mount ?P ''s1'' 0 empty_storage)"
  have tag: "suffix ''_0'' ''L_1_0_0''"
    by (rule suffixI [of _ "''L_1_0''"]) simp
  have "match_run no_random ?P
     [Ev_init_effect, Ev_init_render, Ev_click 1, Ev_watcher, Ev_transition_timeout 5]
     (match_mount ?P ''s1'' 0 empty_storage)
     = match_step no_random ?P (Ev_transition_timeout 5) (match_step no_random ?P Ev_watcher ?s0)"
    by simp
  also have "match_step no_random ?P Ev_watcher ?s0 =
      (match_mount ?P ''s1'' 0 empty_storage)
       \<lparr>items := [(left_item 0 (word_dom, 0))\<lparr>item_state := St_matched\<rparr>,
                  (right_item 0 (word_dom, 0))\<lparr>item_state := St_matched\<rparr>],
        matchesInRound := [''L_1_0_0''],
        scoreM := 1,
        isTransitioningRef := True,
        transitionTimeouts :=
          [(0, \<lparr>cl_isFinished = False, cl_score = 1, cl_incorrectCount = 0,
                cl_elapsedTime = 0\<rparr>)],
        initDeps := Some 0,
        completions := [0]\<rparr>"
    unfolding example_round_0_matched
    using tag
    by (simp add: completion_watcher_def currentBatchM_def example_batches match_mount_def
        string_of_nat_0 current_closure_def)
  also have "match_step no_random ?P (Ev_transition_timeout 5) \<dots> =
      (match_mount ?P ''s1'' 0 empty_storage)
       \<lparr>roundIndex := 1,
        items := [(left_item 0 (word_dom, 0))\<lparr>item_state := St_matched\<rparr>,
                  (right_item 0 (word_dom, 0))\<lparr>item_state := St_matched\<rparr>],
        matchesInRound := [''L_1_0_0''],
        scoreM := 1,
        isTransitioningRef := True,
        initDeps := Some 0,
        completions := [0]\<rparr>"
    by (simp add: transition_timeout_def example_batches match_mount_def)
  finally show ?thesis .
qed

lemma example_round_1:
  "match_run no_random example_matching_props
     [Ev_init_effect, Ev_init_render, Ev_click 1, Ev_watcher, Ev_transition_timeout 5,
      Ev_init_effect, Ev_init_render]
     (match_mount example_matching_props ''s1'' 0 empty_storage)
   = (match_mount example_matching_props ''s1'' 0 empty_storage)
       \<lparr>roundIndex := 1,
        items := [left_item 1 (word_kot, 0), right_item 1 (word_kot, 0)],
        selectedLeft := Some ''L_2_0_1'',
        scoreM := 1,
        initDeps := Some 1,
        completions := [0]\<rparr>"
proof -
  let ?P = example_matching_props
  let ?s0 = "match_run no_random ?P
     [Ev_init_effect, Ev_init_render, Ev_click 1, Ev_watcher, Ev_transition_timeout 5]
     (match_mount ?P ''s1'' 0 empty_storage)"
  have "match_run no_random ?P
     [Ev_init_effect, Ev_init_render, Ev_click 1, Ev_watcher, Ev_transition_timeout 5,
      Ev_init_effect, Ev_init_render]
     (match_mount ?P ''s1'' 0 empty_storage)
     = match_run no_random ?P [Ev_init_effect, Ev_init_render] ?s0"
    by simp
  also have "\<dots> = (match_mount ?P ''s1'' 0 empty_storage)
       \<lparr>roundIndex := 1,
        items := [left_item 1 (word_kot, 0), right_item 1 (word_kot, 0)],
        selectedLeft := Some ''L_2_0_1'',
        scoreM := 1,
        initDeps := Some 1,
        completions := [0]\<rparr>"
    unfolding example_round_0_completed
    by (simp add: init_effect_def init_render_def currentBatchM_def example_batches
        round_items_def right_source_def shuffleArray_def match_mount_def left_item_def
        right_item_def string_of_nat_0 string_of_nat_1 word_kot_def example_props Let_def)
  finally show ?thesis .
qed

lemma example_round_1_matched:
  "match_run no_random example_matching_props
     [Ev_init_effect, Ev_init_render, Ev_click 1, Ev_watcher, Ev_transition_timeout 5,
      Ev_init_effect, Ev_init_render, Ev_click 1]
     (match_mount example_matching_props ''s1'' 0 empty_storage)
   = (match_mount example_matching_props ''s1'' 0 empty_storage)
       \<lparr>roundIndex := 1,
        items := [(left_item 1 (word_kot, 0))\<lparr>item_state := St_matched\<rparr>,
                  (right_item 1 (word_kot, 0))\<lparr>item_state := St_matched\<rparr>],
        matchesInRound := [''L_2_0_1''],
        scoreM := 2,
        initDeps := Some 1,
        completions := [0]\<rparr>"
proof -
  let ?P = example_matching_props
  have "match_run no_random ?P
     [Ev_init_effect, Ev_init_render, Ev_click 1, Ev_watcher, Ev_transition_timeout 5,
      Ev_init_effect, Ev_init_render, Ev_click 1]
     (match_mount ?P ''s1'' 0 empty_storage)
     = match_step no_random ?P (Ev_click 1)
        (match_run no_random ?P
          [Ev_init_effect, Ev_init_render, Ev_click 1, Ev_watcher, Ev_transition_timeout 5,
           Ev_init_effect, Ev_init_render]
          (match_mount ?P ''s1'' 0 empty_storage))"
    by simp
  also have "\<dots> = (match_mount ?P ''s1'' 0 empty_storage)
       \<lparr>roundIndex := 1,
        items := [(left_item 1 (word_kot, 0))\<lparr>item_state := St_matched\<rparr>,
                  (right_item 1 (word_kot, 0))\<lparr>item_state := St_matched\<rparr>],
        matchesInRound := [''L_2_0_1''],
        scoreM := 2,
        initDeps := Some 1,
        completions := [0]\<rparr>"
    unfolding example_round_1
    by (simp add: handleItemClick_def checkMatch_def match_mount_def left_item_def
        right_item_def string_of_nat_0 string_of_nat_1 word_kot_def set_add_def example_props
        Let_def)
  finally show ?thesis .
qed

theorem round_completion_once_witness:
  "completion_signal example_matching_props
     (match_run no_random example_matching_props [Ev_init_effect, Ev_init_render, Ev_click 1]
        (match_mount example_matching_props ''s1'' 0 empty_storage))
   \<and> matchesInRound
        (match_run no_random example_matching_props [Ev_init_effect, Ev_init_render, Ev_click 1]
           (match_mount example_matching_props ''s1'' 0 empty_storage)) = [''L_1_0_0'']
   \<and> completions (completion_watcher example_matching_props
        (match_run no_random example_matching_props [Ev_init_effect, Ev_init_render, Ev_click 1]
           (match_mount example_matching_props ''s1'' 0 empty_storage))) = [0]
   \<and> completion_signal example_matching_props
     (match_run no_random example_matching_props
        [Ev_init_effect, Ev_init_render, Ev_click 1, Ev_watcher, Ev_transition_timeout 5,
         Ev_init_effect, Ev_init_render, Ev_click 1]
        (match_mount example_matching_props ''s1'' 0 empty_storage))
   \<and> completions (completion_watcher example_matching_props
        (match_run no_random example_matching_props
           [Ev_init_effect, Ev_init_render, Ev_click 1, Ev_watcher, Ev_transition_timeout 5,
            Ev_init_effect, Ev_init_render, Ev_click 1]
           (match_mount example_matching_props ''s1'' 0 empty_storage))) = [0, 1]"
proof -
  let ?P = example_matching_props
  let ?s = "match_run no_random ?P [Ev_init_effect, Ev_init_render, Ev_click 1]
        (match_mount ?P ''s1'' 0 empty_storage)"
  let ?s1 = "match_run no_random ?P
        [Ev_init_effect, Ev_init_render, Ev_click 1, Ev_watcher, Ev_transition_timeout 5,
         Ev_init_effect, Ev_init_render, Ev_click 1]
        (match_mount ?P ''s1'' 0 empty_storage)"
  have tag: "suffix (''_'' @ string_of_nat 0) ''L_1_0_0''"
    unfolding string_of_nat_0 by (rule suffixI [of _ "''L_1_0''"]) simp
  have tag1: "suffix (''_'' @ string_of_nat 1) ''L_2_0_1''"
    unfolding One_nat_def string_of_nat_1 by (rule suffixI [of _ "''L_2_0''"]) simp
  have signal: "completion_signal ?P ?s"
    unfolding example_round_0_matched
    using tag
    by (simp add: completion_signal_def completion_watcher_def currentBatchM_def
        example_batches match_mount_def)
  have s: "matchesInRound ?s = [''L_1_0_0'']" "completions ?s = []" "roundIndex ?s = 0"
    unfolding example_round_0_matched by (simp_all add: match_mount_def)
  have s1: "\<not> isFinishedM ?s1" "currentBatchM ?P ?s1 = Some [word_kot]"
    "matchesInRound ?s1 = [''L_2_0_1'']" "roundIndex ?s1 = 1" "completions ?s1 = [0]"
    unfolding example_round_1_matched
    by (simp_all add: match_mount_def currentBatchM_def example_batches)
  have first: "completions (completion_watcher ?P ?s) = [0]"
    using signal s
      round_completion_once
        [of ?s no_random ?P "[Ev_init_effect, Ev_init_render, Ev_click 1]" "''s1''" 0
            empty_storage]
    by simp
  have enabled: "\<not> isFinishedM ?s1
       \<and> (\<exists>batch. currentBatchM ?P ?s1 = Some batch
             \<and> length (matchesInRound ?s1) = length batch)
       \<and> (\<forall>m \<in> set (matchesInRound ?s1). suffix (''_'' @ string_of_nat (roundIndex ?s1)) m)
       \<and> (\<not> isTransitioningRef ?s1 \<or> roundIndex ?s1 \<notin> set (completions ?s1))"
    unfolding s1 using s1(1) tag1 by simp
  have "completion_signal ?P ?s1
      \<and> completion_watcher ?P ?s1 =
          ?s1\<lparr>isTransitioningRef := True,
              completions := completions ?s1 @ [roundIndex ?s1],
              transitionTimeouts := [(roundIndex ?s1, current_closure ?s1)]\<rparr>"
    using round_completion_once [OF refl, THEN conjunct2, THEN conjunct1, THEN mp, OF enabled] .
  then have second: "completion_signal ?P ?s1"
    and "completions (completion_watcher ?P ?s1) = completions ?s1 @ [roundIndex ?s1]"
    by simp_all
  then have "completions (completion_watcher ?P ?s1) = [0, 1]"
    unfolding s1 by simp
  with signal s(1) first second show ?thesis
    by (intro conjI)
qed

end
